theory Spec2Isabelle
  imports Main
begin

section \<open>Data model (src/App.tsx, lines 4-14)\<close>

text \<open>
  The two interfaces of the source. The field names \<open>id\<close> and \<open>name\<close> occur in both
  interfaces, so they carry the interface as a prefix here.
\<close>

record TimerStep =
  step_id :: int
  step_name :: string
  duration :: int

record Preset =
  preset_id :: int
  preset_name :: string
  preset_steps :: "TimerStep list"

text \<open>
  The state of the \<open>App\<close> component: one field per \<open>useState\<close> variable (lines 172-190),
  in the order of declaration, followed by what the component keeps outside React state:
  \<^item> \<open>alarmAudioRef\<close>: whether \<open>alarmAudioRef.current\<close> holds the audio element
    (it does from the mount effect of lines 201-215 on);
  \<^item> \<open>stepsArray\<close>: the identity of the array object held in \<open>steps\<close>. Every
    \<open>setSteps\<close> of the source passes a freshly built array, and the dependency list of
    the effect of lines 217-231 compares arrays by identity, not by content;
  \<^item> \<open>alarmPlays\<close>: how often \<open>playAlarm\<close> has started the audio (each run of its
    body past the guard of line 246), which is how the alarm triggers are counted;
  \<^item> \<open>storage\<close>: the preset collection held in \<open>localStorage\<close> under \<open>STORAGE_KEY\<close>.
\<close>

record App =
  timerName :: string
  inputHours :: int
  inputMinutes :: int
  inputSeconds :: int
  displayHours :: int
  displayMinutes :: int
  displaySeconds :: int
  steps :: "TimerStep list"
  isRunning :: bool
  currentStepIndex :: nat
  remainingTime :: int
  isMainTimerRunning :: bool
  mainTimerRemainingTime :: int
  isPaused :: bool
  isModalOpen :: bool
  presets :: "Preset list"
  isPresetsOpen :: bool
  isAlarmPlaying :: bool
  isUsingSteps :: bool
  alarmAudioRef :: bool
  stepsArray :: nat
  alarmPlays :: nat
  storage :: "Preset list"

datatype time_unit = Hours | Minutes | Seconds

section \<open>Arithmetic of the source\<close>

text \<open>
  JavaScript's \<open>%\<close> takes the sign of the dividend; \<open>Math.floor(a / b)\<close> is \<open>div\<close> on
  the integers for a positive \<open>b\<close>.
\<close>

definition js_rem :: "int \<Rightarrow> int \<Rightarrow> int" where
  "js_rem a b = (if a < 0 then - ((- a) mod \<bar>b\<bar>) else a mod \<bar>b\<bar>)"

text \<open>
  \<open>steps.reduce((total, step) => total + step.duration, 0)\<close>. The numbers of the source
  are IEEE doubles: a sum of whole numbers that are not negative is exact as long as it
  stays below \<open>2 ^ 53 = 9007199254740992\<close>, and there the integers of the model are the
  numbers of the code; from \<open>2 ^ 53\<close> on the code rounds and the model does not follow it.
\<close>

definition totalDuration :: "TimerStep list \<Rightarrow> int" where
  "totalDuration xs = foldl (\<lambda>total step. total + duration step) 0 xs"

text \<open>\<open>inputHours * 3600 + inputMinutes * 60 + inputSeconds\<close>\<close>

definition inputTotal :: "App \<Rightarrow> int" where
  "inputTotal c = inputHours c * 3600 + inputMinutes c * 60 + inputSeconds c"

text \<open>The three \<open>setDisplay...\<close> calls that show a number of seconds (lines 220-227, 239-241, 510-516).\<close>

definition setDisplayFromSeconds :: "int \<Rightarrow> App \<Rightarrow> App" where
  "setDisplayFromSeconds totalSeconds s =
     s\<lparr>displayHours := totalSeconds div 3600,
       displayMinutes := js_rem totalSeconds 3600 div 60,
       displaySeconds := js_rem totalSeconds 60\<rparr>"

text \<open>The template string of line 416 prints a number in decimal.\<close>

fun decimal :: "nat \<Rightarrow> string" where
  "decimal n =
     (if n < 10 then [''0123456789'' ! n]
      else decimal (n div 10) @ [''0123456789'' ! (n mod 10)])"

declare decimal.simps [simp del]

section \<open>The alarm (lines 245-276)\<close>

text \<open>
  Of \<open>playAlarm\<close> and \<open>stopAlarm\<close> the model keeps the state they set and the count of
  playbacks started; the 60 second timeout is a later \<open>stopAlarm\<close>.
\<close>

definition playAlarm :: "App \<Rightarrow> App" where
  "playAlarm s =
     (if \<not> alarmAudioRef s then s
      else s\<lparr>isAlarmPlaying := True, alarmPlays := alarmPlays s + 1\<rparr>)"

definition stopAlarm :: "App \<Rightarrow> App" where
  "stopAlarm s = s\<lparr>isAlarmPlaying := False\<rparr>"

section \<open>Event handlers\<close>

text \<open>
  A handler runs in the closure of the render that created it: it reads the state \<open>c\<close> of
  that render, and its \<open>set...\<close> calls are queued and applied, in order, for the next render.
  A handler is therefore a function from the rendered state \<open>c\<close> to the next state. Helpers
  that are called from several handlers take the closure \<open>c\<close> they read and the pending
  state \<open>s\<close> they write.
\<close>

text \<open>\<open>resetSteps\<close>, lines 233-243.\<close>

definition resetSteps :: "App \<Rightarrow> App \<Rightarrow> App" where
  "resetSteps c s =
     (let s = s\<lparr>currentStepIndex := 0\<rparr> in
      if length (steps c) > 0 then
        (let s = s\<lparr>remainingTime := duration (steps c ! 0)\<rparr>;
             totalSeconds = totalDuration (steps c);
             s = s\<lparr>mainTimerRemainingTime := totalSeconds\<rparr>
         in setDisplayFromSeconds totalSeconds s)
      else s)"

text \<open>The wrap-around of one entry field (lines 283-304): \<open>limit\<close> is 24 or 60.\<close>

definition wrapField :: "int \<Rightarrow> int \<Rightarrow> int \<Rightarrow> int" where
  "wrapField limit prev delta =
     (let newValue = prev + delta in
      if newValue \<ge> limit then 0
      else if newValue < 0 then limit - 1
      else newValue)"

text \<open>\<open>handleTimeChange\<close>, lines 278-315.\<close>

definition handleTimeChange :: "time_unit \<Rightarrow> int \<Rightarrow> App \<Rightarrow> App" where
  "handleTimeChange type delta c =
     (if isMainTimerRunning c then c
      else
        (let s = (case type of
                    Hours \<Rightarrow> c\<lparr>inputHours := wrapField 24 (inputHours c) delta\<rparr>
                  | Minutes \<Rightarrow> c\<lparr>inputMinutes := wrapField 60 (inputMinutes c) delta\<rparr>
                  | Seconds \<Rightarrow> c\<lparr>inputSeconds := wrapField 60 (inputSeconds c) delta\<rparr>)
         in if \<not> isUsingSteps c then
              (let totalSeconds = inputHours c * 3600 + inputMinutes c * 60 + inputSeconds c in
               s\<lparr>mainTimerRemainingTime := totalSeconds,
                 displayHours := inputHours c,
                 displayMinutes := inputMinutes c,
                 displaySeconds := inputSeconds c\<rparr>)
            else s))"

text \<open>\<open>startMainTimer\<close>, lines 324-352.\<close>

definition startMainTimer :: "App \<Rightarrow> App" where
  "startMainTimer c =
     (let totalInputSeconds = inputHours c * 3600 + inputMinutes c * 60 + inputSeconds c;
          s = (if length (steps c) > 0 then
                 (let s = c\<lparr>isUsingSteps := True\<rparr> in
                  if isPaused c then
                    s\<lparr>isPaused := False, isMainTimerRunning := True, isRunning := True\<rparr>
                  else if \<not> isMainTimerRunning c then
                    s\<lparr>isMainTimerRunning := True, isRunning := True, currentStepIndex := 0,
                      remainingTime := duration (steps c ! 0), isPaused := False\<rparr>
                  else s)
               else if totalInputSeconds > 0 then
                 (let s = c\<lparr>isUsingSteps := False\<rparr> in
                  if \<not> isMainTimerRunning c then
                    s\<lparr>mainTimerRemainingTime := totalInputSeconds,
                      displayHours := inputHours c,
                      displayMinutes := inputMinutes c,
                      displaySeconds := inputSeconds c,
                      isMainTimerRunning := True,
                      isPaused := False\<rparr>
                  else s)
               else c)
      in stopAlarm s)"

text \<open>\<open>pauseMainTimer\<close> and \<open>resumeMainTimer\<close>, lines 354-364.\<close>

definition pauseMainTimer :: "App \<Rightarrow> App" where
  "pauseMainTimer c = c\<lparr>isPaused := True, isMainTimerRunning := False, isRunning := False\<rparr>"

definition resumeMainTimer :: "App \<Rightarrow> App" where
  "resumeMainTimer c = c\<lparr>isPaused := False, isMainTimerRunning := True, isRunning := True\<rparr>"

text \<open>\<open>resetMainTimer\<close>, lines 366-383.\<close>

definition resetMainTimer :: "App \<Rightarrow> App" where
  "resetMainTimer c =
     (let s = c\<lparr>isMainTimerRunning := False, isRunning := False, currentStepIndex := 0\<rparr>;
          s = (if isUsingSteps c \<and> length (steps c) > 0 then
                 (let s = s\<lparr>remainingTime := duration (steps c ! 0)\<rparr>;
                      totalSeconds = totalDuration (steps c)
                  in s\<lparr>mainTimerRemainingTime := totalSeconds\<rparr>)
               else
                 (let totalSeconds = inputHours c * 3600 + inputMinutes c * 60 + inputSeconds c in
                  s\<lparr>mainTimerRemainingTime := totalSeconds,
                    displayHours := inputHours c,
                    displayMinutes := inputMinutes c,
                    displaySeconds := inputSeconds c\<rparr>));
          s = s\<lparr>isPaused := False\<rparr>
      in stopAlarm s)"

text \<open>\<open>clearTimeInput\<close> and \<open>clearAllSteps\<close>, lines 385-409.\<close>

definition clearTimeInput :: "App \<Rightarrow> App" where
  "clearTimeInput c =
     (let s = c\<lparr>inputHours := 0, inputMinutes := 0, inputSeconds := 0\<rparr> in
      if \<not> isUsingSteps c then
        s\<lparr>displayHours := 0, displayMinutes := 0, displaySeconds := 0,
          mainTimerRemainingTime := 0\<rparr>
      else s)"

definition clearAllSteps :: "App \<Rightarrow> App" where
  "clearAllSteps c =
     (if \<not> isRunning c then
        (let s = c\<lparr>steps := [], stepsArray := stepsArray c + 1, isUsingSteps := False,
                   currentStepIndex := 0, remainingTime := 0\<rparr>;
             totalSeconds = inputHours c * 3600 + inputMinutes c * 60 + inputSeconds c
         in s\<lparr>mainTimerRemainingTime := totalSeconds,
              displayHours := inputHours c,
              displayMinutes := inputMinutes c,
              displaySeconds := inputSeconds c\<rparr>)
      else c)"

text \<open>
  \<open>addStep\<close>, lines 411-423. \<open>now\<close> is the value \<open>Date.now()\<close> returns at the call; an
  empty \<open>timerName\<close> is falsy, so \<open>||\<close> takes the default name.
\<close>

definition addStep :: "int \<Rightarrow> App \<Rightarrow> App" where
  "addStep now c =
     (let totalSeconds = inputHours c * 3600 + inputMinutes c * 60 + inputSeconds c in
      if totalSeconds > 0 then
        (let newStep = \<lparr>step_id = now,
                         step_name = (if timerName c \<noteq> [] then timerName c
                                      else ''Step '' @ decimal (length (steps c) + 1)),
                         duration = totalSeconds\<rparr>
         in c\<lparr>steps := steps c @ [newStep], stepsArray := stepsArray c + 1,
              timerName := [], isUsingSteps := True\<rparr>)
      else c)"

text \<open>\<open>deleteStep\<close>, lines 425-432.\<close>

definition deleteStep :: "int \<Rightarrow> App \<Rightarrow> App" where
  "deleteStep stepId c =
     (if isRunning c then c
      else
        (let newSteps = filter (\<lambda>step. step_id step \<noteq> stepId) (steps c);
             s = c\<lparr>steps := newSteps, stepsArray := stepsArray c + 1\<rparr>
         in if length newSteps = 0 then s\<lparr>isUsingSteps := False\<rparr> else s))"

text \<open>
  \<open>savePreset\<close>, \<open>loadPreset\<close> and \<open>deletePreset\<close>, lines 434-458, with
  \<open>savePresetsToStorage\<close> of lines 23-25. The spread \<open>[...steps]\<close> builds a new array of
  the same steps.
\<close>

definition savePreset :: "int \<Rightarrow> string \<Rightarrow> App \<Rightarrow> App" where
  "savePreset now name' c =
     (if length (steps c) > 0 then
        (let newPreset = \<lparr>preset_id = now, preset_name = name', preset_steps = steps c\<rparr>;
             updatedPresets = presets c @ [newPreset]
         in c\<lparr>presets := updatedPresets, storage := updatedPresets, isModalOpen := False\<rparr>)
      else c)"

definition loadPreset :: "Preset \<Rightarrow> App \<Rightarrow> App" where
  "loadPreset preset c =
     c\<lparr>steps := preset_steps preset, stepsArray := stepsArray c + 1,
       isPresetsOpen := False, isUsingSteps := True\<rparr>"

definition deletePreset :: "int \<Rightarrow> App \<Rightarrow> App" where
  "deletePreset presetId c =
     (let updatedPresets = filter (\<lambda>preset. preset_id preset \<noteq> presetId) (presets c) in
      c\<lparr>presets := updatedPresets, storage := updatedPresets\<rparr>)"

section \<open>The interval callback (lines 460-506)\<close>

text \<open>
  The callback passes updater functions to \<open>setMainTimerRemainingTime\<close> and
  \<open>setRemainingTime\<close>. React queues an updater and runs it when it renders the state
  variable, on the value the variable then has; here each updater is the first update of
  its variable, so it runs on the value of the render \<open>c\<close>. The \<open>set...\<close> calls an updater
  makes while it runs are queued behind the updaters themselves and applied after them, in
  the order they were made. React renders the state variables in the order of their
  declaration, so the updater of \<open>remainingTime\<close> (declared on line 182) runs before the
  updater of \<open>mainTimerRemainingTime\<close> (line 184). Each updater runs once (a production
  build: the development mode of \<open>StrictMode\<close> runs updaters twice).

  This is the order of \<open>intervalCallback\<close> below, the order of a tick that follows a
  render which changed the state (the start, the resume or the tick before it). When no
  update of the component is left from an earlier render, which is so after a render that
  changed nothing (\<open>start\<close> or \<open>resume\<close> on a timer that runs already), React runs the first
  updater of the callback at once, inside the \<open>set...\<close> call: that order is
  \<open>intervalCallbackEager\<close> below.

  An updater is modelled as the value it returns together with the calls it makes, as a
  function on the pending state. The closure of the callback is the state \<open>c\<close> of the last
  render: every state variable it reads is in the dependency list of line 506.
\<close>

text \<open>Lines 466-475.\<close>

definition mainTimerUpdater :: "App \<Rightarrow> int \<Rightarrow> int \<times> (App \<Rightarrow> App)" where
  "mainTimerUpdater c prev =
     (if prev \<le> 1 then
        (totalDuration (steps c),
         \<lambda>s. resetSteps c (playAlarm (s\<lparr>isMainTimerRunning := False, isRunning := False\<rparr>)))
      else (prev - 1, \<lambda>s. s))"

text \<open>
  Lines 477-491. In the last branch \<open>steps[0].duration\<close> is read without a check of the
  length: on an empty array it throws a \<open>TypeError\<close>, the result \<open>None\<close>.
\<close>

definition remainingTimeUpdater :: "App \<Rightarrow> int \<Rightarrow> (int \<times> (App \<Rightarrow> App)) option" where
  "remainingTimeUpdater c prev =
     (if prev \<le> 1 then
        (if int (currentStepIndex c) < int (length (steps c)) - 1 then
           Some (duration (steps c ! (currentStepIndex c + 1)),
                 \<lambda>s. (let s = playAlarm s in s\<lparr>currentStepIndex := currentStepIndex s + 1\<rparr>))
         else
           (case steps c of
              [] \<Rightarrow> None
            | step0 # _ \<Rightarrow>
                Some (duration step0,
                      \<lambda>s. resetSteps c ((playAlarm s)\<lparr>isRunning := False, currentStepIndex := 0\<rparr>))))
      else Some (prev - 1, \<lambda>s. s))"

text \<open>Lines 493-500.\<close>

definition simpleTimerUpdater :: "App \<Rightarrow> int \<Rightarrow> int \<times> (App \<Rightarrow> App)" where
  "simpleTimerUpdater c prev =
     (if prev \<le> 1 then (0, \<lambda>s. playAlarm (s\<lparr>isMainTimerRunning := False\<rparr>))
      else (prev - 1, \<lambda>s. s))"

definition intervalCallback :: "App \<Rightarrow> App option" where
  "intervalCallback c =
     (if isUsingSteps c then
        (case remainingTimeUpdater c (remainingTime c) of
           None \<Rightarrow> None
         | Some (r, stepCalls) \<Rightarrow>
             (case mainTimerUpdater c (mainTimerRemainingTime c) of
                (m, mainCalls) \<Rightarrow>
                  Some (mainCalls (stepCalls (c\<lparr>remainingTime := r, mainTimerRemainingTime := m\<rparr>)))))
      else
        (case simpleTimerUpdater c (mainTimerRemainingTime c) of
           (m, mainCalls) \<Rightarrow> Some (mainCalls (c\<lparr>mainTimerRemainingTime := m\<rparr>))))"

text \<open>
  The other order. \<open>setMainTimerRemainingTime\<close> is the first call of the callback (line
  466): its updater runs at once, on the value of the render \<open>c\<close>, and the \<open>set...\<close> calls
  it makes are queued before anything else, so they give the pending state
  \<open>mainCalls c\<close>; the value the updater returned is applied after them. With an update
  pending, the updater of \<open>remainingTime\<close> is queued as before and runs at the render, on
  the value \<open>remainingTime\<close> has then: the duration of the first step if \<open>resetSteps\<close> has
  just set it (line 236), the value of \<open>c\<close> otherwise. What that updater sets in turn is
  applied last. Its closure is still \<open>c\<close>. Without steps the callback has one updater and
  both orders give the same state.
\<close>

definition intervalCallbackEager :: "App \<Rightarrow> App option" where
  "intervalCallbackEager c =
     (if isUsingSteps c then
        (case mainTimerUpdater c (mainTimerRemainingTime c) of
           (m, mainCalls) \<Rightarrow>
             (let s = mainCalls c in
              case remainingTimeUpdater c (remainingTime s) of
                None \<Rightarrow> None
              | Some (r, stepCalls) \<Rightarrow>
                  Some (stepCalls (s\<lparr>remainingTime := r, mainTimerRemainingTime := m\<rparr>))))
      else
        (case simpleTimerUpdater c (mainTimerRemainingTime c) of
           (m, mainCalls) \<Rightarrow> Some ((mainCalls c)\<lparr>mainTimerRemainingTime := m\<rparr>)))"

section \<open>Effects after a render\<close>

text \<open>
  After a render React runs the effects whose dependencies changed since the previous
  render \<open>p\<close>; they read the closure of the new render \<open>c\<close>, and what they set is the next
  render. The effect of \<open>CountdownDisplay\<close> (lines 93-102) runs after every render, since
  its dependency \<open>onComplete\<close> is a new function each time; so its \<open>prevTimeRef\<close> holds
  the display of the previous render. Effects of a child run before those of its parent.
\<close>

definition countdownDisplayEffect :: "App \<Rightarrow> App \<Rightarrow> App \<Rightarrow> App" where
  "countdownDisplayEffect p c s =
     (if isMainTimerRunning c \<and> \<not> isPaused c then
        (let totalSeconds = displayHours c * 3600 + displayMinutes c * 60 + displaySeconds c in
         if totalSeconds = 0 \<and> displayHours p = 0 \<and> displayMinutes p = 0 \<and> displaySeconds p = 1
         then playAlarm s else s)
      else s)"

text \<open>Lines 217-231, dependencies \<open>[steps, isUsingSteps]\<close>.\<close>

definition stepsEffect :: "App \<Rightarrow> App \<Rightarrow> App" where
  "stepsEffect c s =
     (if length (steps c) > 0 then
        (let totalSeconds = totalDuration (steps c) in
         if isUsingSteps c then
           (setDisplayFromSeconds totalSeconds s)\<lparr>mainTimerRemainingTime := totalSeconds\<rparr>
         else s)
      else s)"

text \<open>Lines 508-518, dependencies \<open>[mainTimerRemainingTime]\<close>.\<close>

definition remainingEffect :: "App \<Rightarrow> App \<Rightarrow> App" where
  "remainingEffect c s =
     (if mainTimerRemainingTime c > 0 then setDisplayFromSeconds (mainTimerRemainingTime c) s
      else s)"

definition effects :: "App \<Rightarrow> App \<Rightarrow> App" where
  "effects p c =
     (let s = countdownDisplayEffect p c c;
          s = (if stepsArray p \<noteq> stepsArray c \<or> isUsingSteps p \<noteq> isUsingSteps c
               then stepsEffect c s else s);
          s = (if mainTimerRemainingTime p \<noteq> mainTimerRemainingTime c
               then remainingEffect c s else s)
      in s)"

text \<open>
  The renders that follow an update of the state \<open>p\<close> to \<open>c\<close>: effects, the render of what
  they set, its effects, and so on. Three rounds reach a state that the effects leave as it
  is (lemma \<open>rerender_settled\<close> below).
\<close>

definition rerender :: "App \<Rightarrow> App \<Rightarrow> App" where
  "rerender p c =
     (let c2 = effects p c;
          c3 = effects c c2
      in effects c2 c3)"

section \<open>Events\<close>

text \<open>An event is a handler followed by the renders it causes.\<close>

definition event :: "(App \<Rightarrow> App) \<Rightarrow> App \<Rightarrow> App" where
  "event handler c = rerender c (handler c)"

text \<open>
  The interval exists while \<open>isMainTimerRunning && !isPaused\<close> (line 463); in any other
  state no tick arrives. \<open>tick\<close> is a tick whose updaters are queued, the tick of a
  countdown that is left to run; \<open>tickEager\<close> is a tick whose first updater runs at once,
  the tick that follows a render which changed nothing.
\<close>

definition tick :: "App \<Rightarrow> App option" where
  "tick c =
     (if isMainTimerRunning c \<and> \<not> isPaused c
      then map_option (rerender c) (intervalCallback c)
      else Some c)"

fun ticks :: "nat \<Rightarrow> App \<Rightarrow> App option" where
  "ticks 0 s = Some s"
| "ticks (Suc n) s = (case tick s of None \<Rightarrow> None | Some s' \<Rightarrow> ticks n s')"

definition tickEager :: "App \<Rightarrow> App option" where
  "tickEager c =
     (if isMainTimerRunning c \<and> \<not> isPaused c
      then map_option (rerender c) (intervalCallbackEager c)
      else Some c)"

text \<open>
  The state after the mount effects of lines 196-215: the \<open>useState\<close> defaults, the
  presets read from storage and the audio element in its ref.
\<close>

definition mounted :: "Preset list \<Rightarrow> App" where
  "mounted stored =
     \<lparr>timerName = [], inputHours = 0, inputMinutes = 0, inputSeconds = 0,
      displayHours = 0, displayMinutes = 0, displaySeconds = 0,
      steps = [], isRunning = False, currentStepIndex = 0, remainingTime = 0,
      isMainTimerRunning = False, mainTimerRemainingTime = 0, isPaused = False,
      isModalOpen = False, presets = stored, isPresetsOpen = False,
      isAlarmPlaying = False, isUsingSteps = False,
      alarmAudioRef = True, stepsArray = 0, alarmPlays = 0, storage = stored\<rparr>"

section \<open>The operations of the timer\<close>

text \<open>
  The operations the specification names, as the handlers the buttons and the wheels of
  lines 535-632 are bound to. They are taken without the conditions under which the page
  shows a button, so every statement about them covers the page as well.
\<close>

definition adjust :: "time_unit \<Rightarrow> int \<Rightarrow> App \<Rightarrow> App" where
  "adjust type delta = event (handleTimeChange type delta)"

definition start :: "App \<Rightarrow> App" where
  "start = event startMainTimer"

definition pause :: "App \<Rightarrow> App" where
  "pause = event pauseMainTimer"

definition resume :: "App \<Rightarrow> App" where
  "resume = event resumeMainTimer"

definition reset :: "App \<Rightarrow> App" where
  "reset = event resetMainTimer"

definition appendStep :: "int \<Rightarrow> App \<Rightarrow> App" where
  "appendStep now = event (addStep now)"

definition removeStep :: "int \<Rightarrow> App \<Rightarrow> App" where
  "removeStep stepId = event (deleteStep stepId)"

definition clearSteps :: "App \<Rightarrow> App" where
  "clearSteps = event clearAllSteps"

definition saveAsPreset :: "int \<Rightarrow> string \<Rightarrow> App \<Rightarrow> App" where
  "saveAsPreset now name' = event (savePreset now name')"

text \<open>An entry field and the size of its range (\<open>max\<close> of \<open>TimeUnit\<close> is 23 or 59).\<close>

definition entryField :: "time_unit \<Rightarrow> App \<Rightarrow> int" where
  "entryField type c =
     (case type of Hours \<Rightarrow> inputHours c | Minutes \<Rightarrow> inputMinutes c | Seconds \<Rightarrow> inputSeconds c)"

definition fieldLimit :: "time_unit \<Rightarrow> int" where
  "fieldLimit type = (case type of Hours \<Rightarrow> 24 | Minutes \<Rightarrow> 60 | Seconds \<Rightarrow> 60)"

text \<open>A structural change of the step list: a step appended, a step removed, all steps cleared.\<close>

datatype mutation = Append int | Remove int | Clear

fun mutate :: "mutation \<Rightarrow> App \<Rightarrow> App" where
  "mutate (Append now) = appendStep now"
| "mutate (Remove stepId) = removeStep stepId"
| "mutate Clear = clearSteps"

text \<open>
  Every handler that stores a non-empty step list sets \<open>isUsingSteps\<close> with it
  (lemma \<open>modeConsistent_kept\<close> below), so the states the page reaches satisfy:
\<close>

definition modeConsistent :: "App \<Rightarrow> bool" where
  "modeConsistent c = (steps c \<noteq> [] \<longrightarrow> isUsingSteps c)"

text \<open>
  When the effect of \<open>CountdownDisplay\<close> calls \<open>onComplete\<close> (lines 94-99): the timer runs,
  the display shows zero and the display of the previous render showed one second.
\<close>

definition countdownCompletes :: "App \<Rightarrow> App \<Rightarrow> bool" where
  "countdownCompletes p c =
     (isMainTimerRunning c \<and> \<not> isPaused c
      \<and> displayHours c * 3600 + displayMinutes c * 60 + displaySeconds c = 0
      \<and> displayHours p = 0 \<and> displayMinutes p = 0 \<and> displaySeconds p = 1)"

section \<open>Sequential runs\<close>

text \<open>
  An idle timer in sequential mode on which the effect of lines 217-231 has run: the steps
  are valid (a duration of at least one second, as \<open>addStep\<close> builds them), their total is
  below \<open>2 ^ 53\<close>, where the sums of the code are exact, and the remaining time is that
  total (lemma \<open>appendStep_seeded\<close> below).
\<close>

definition seeded :: "App \<Rightarrow> bool" where
  "seeded c =
     (steps c \<noteq> [] \<and> (\<forall>st \<in> set (steps c). 1 \<le> duration st)
      \<and> totalDuration (steps c) < 9007199254740992
      \<and> isUsingSteps c
      \<and> \<not> isMainTimerRunning c \<and> \<not> isPaused c
      \<and> mainTimerRemainingTime c = totalDuration (steps c))"

text \<open>
  The states reached from a seeded start by \<open>start\<close>, \<open>tick\<close>, \<open>pause\<close>, \<open>resume\<close> and
  \<open>reset\<close>, in any order. The operations are taken where the page offers them and where
  it does not (\<open>start\<close> or \<open>resume\<close> on a running timer, \<open>resume\<close> on an idle one), and a
  tick in whichever of the two orders React runs its updaters: every state the program
  reaches in such a run is among these.
\<close>

inductive sequentialRun :: "App \<Rightarrow> bool" where
  seed: "seeded c \<Longrightarrow> sequentialRun (start c)"
| started: "sequentialRun s \<Longrightarrow> sequentialRun (start s)"
| paused: "sequentialRun s \<Longrightarrow> sequentialRun (pause s)"
| resumed: "sequentialRun s \<Longrightarrow> sequentialRun (resume s)"
| reset_done: "sequentialRun s \<Longrightarrow> sequentialRun (reset s)"
| ticked: "sequentialRun s \<Longrightarrow> tick s = Some s' \<Longrightarrow> sequentialRun s'"
| ticked_at_once: "sequentialRun s \<Longrightarrow> tickEager s = Some s' \<Longrightarrow> sequentialRun s'"

text \<open>
  What holds in every state of such a run, in either order of the updaters: the remaining
  time of the active step is at least one second, and together with the durations of the
  steps after it it is covered by the remaining time of the whole timer, which is at most
  the total of the steps; an idle timer shows that total. After a final tick whose first
  updater ran at once the remaining time of the first step is one second short of its
  duration, so the two sides need not be equal.
\<close>

definition stepCovered :: "App \<Rightarrow> bool" where
  "stepCovered s =
     (steps s \<noteq> [] \<and> (\<forall>st \<in> set (steps s). 1 \<le> duration st)
      \<and> totalDuration (steps s) < 9007199254740992
      \<and> isUsingSteps s
      \<and> currentStepIndex s < length (steps s)
      \<and> 1 \<le> remainingTime s
      \<and> remainingTime s + totalDuration (drop (Suc (currentStepIndex s)) (steps s))
          \<le> mainTimerRemainingTime s
      \<and> mainTimerRemainingTime s \<le> totalDuration (steps s)
      \<and> (\<not> isMainTimerRunning s \<and> \<not> isPaused s \<longrightarrow>
            mainTimerRemainingTime s = totalDuration (steps s)))"

text \<open>
  What holds along a run whose ticks all have their updaters queued (a countdown between
  whose ticks no operation is invoked): the remaining time of the whole timer is the
  remaining time of the active step plus the durations of the steps after it; when idle,
  the counters are those of the first step.
\<close>

definition sequentialInvariant :: "App \<Rightarrow> bool" where
  "sequentialInvariant s =
     (steps s \<noteq> [] \<and> (\<forall>st \<in> set (steps s). 1 \<le> duration st) \<and> isUsingSteps s
      \<and> currentStepIndex s < length (steps s)
      \<and> 1 \<le> remainingTime s
      \<and> mainTimerRemainingTime s
          = remainingTime s + totalDuration (drop (Suc (currentStepIndex s)) (steps s))
      \<and> (\<not> isMainTimerRunning s \<and> \<not> isPaused s \<longrightarrow>
            currentStepIndex s = 0 \<and> remainingTime s = duration (steps s ! 0)))"

section \<open>Renders and effects\<close>

lemmas effect_defs = effects_def countdownDisplayEffect_def stepsEffect_def remainingEffect_def
  setDisplayFromSeconds_def playAlarm_def

lemmas handler_defs = handleTimeChange_def startMainTimer_def pauseMainTimer_def
  resumeMainTimer_def resetMainTimer_def clearTimeInput_def clearAllSteps_def addStep_def
  deleteStep_def savePreset_def loadPreset_def deletePreset_def stopAlarm_def resetSteps_def

lemmas operation_defs = adjust_def start_def pause_def resume_def reset_def appendStep_def
  removeStep_def clearSteps_def saveAsPreset_def event_def

lemmas tick_defs = tick_def intervalCallback_def mainTimerUpdater_def remainingTimeUpdater_def
  simpleTimerUpdater_def tickEager_def intervalCallbackEager_def

text \<open>Everything needed to run the model on a concrete state.\<close>

lemmas model_defs = operation_defs handler_defs tick_defs rerender_def effect_defs mounted_def
  Let_def totalDuration_def js_rem_def wrapField_def

text \<open>The effects change the display, the remaining time and the alarm only.\<close>

lemma effects_frame:
  "inputHours (effects p c) = inputHours c"
  "inputMinutes (effects p c) = inputMinutes c"
  "inputSeconds (effects p c) = inputSeconds c"
  "steps (effects p c) = steps c"
  "stepsArray (effects p c) = stepsArray c"
  "isUsingSteps (effects p c) = isUsingSteps c"
  "isMainTimerRunning (effects p c) = isMainTimerRunning c"
  "isRunning (effects p c) = isRunning c"
  "isPaused (effects p c) = isPaused c"
  "currentStepIndex (effects p c) = currentStepIndex c"
  "remainingTime (effects p c) = remainingTime c"
  "presets (effects p c) = presets c"
  "storage (effects p c) = storage c"
  "timerName (effects p c) = timerName c"
  "alarmAudioRef (effects p c) = alarmAudioRef c"
  by (simp_all add: effect_defs Let_def)

lemma rerender_frame:
  "inputHours (rerender p c) = inputHours c"
  "inputMinutes (rerender p c) = inputMinutes c"
  "inputSeconds (rerender p c) = inputSeconds c"
  "steps (rerender p c) = steps c"
  "stepsArray (rerender p c) = stepsArray c"
  "isUsingSteps (rerender p c) = isUsingSteps c"
  "isMainTimerRunning (rerender p c) = isMainTimerRunning c"
  "isRunning (rerender p c) = isRunning c"
  "isPaused (rerender p c) = isPaused c"
  "currentStepIndex (rerender p c) = currentStepIndex c"
  "remainingTime (rerender p c) = remainingTime c"
  "presets (rerender p c) = presets c"
  "storage (rerender p c) = storage c"
  "timerName (rerender p c) = timerName c"
  "alarmAudioRef (rerender p c) = alarmAudioRef c"
  by (simp_all add: rerender_def Let_def effects_frame)

lemma effects_main:
  "stepsArray p = stepsArray c \<Longrightarrow> isUsingSteps p = isUsingSteps c \<Longrightarrow>
   mainTimerRemainingTime (effects p c) = mainTimerRemainingTime c"
  by (simp add: effect_defs Let_def)

lemma effects_display:
  "stepsArray p = stepsArray c \<Longrightarrow> isUsingSteps p = isUsingSteps c \<Longrightarrow>
   mainTimerRemainingTime p = mainTimerRemainingTime c \<Longrightarrow>
   displayHours (effects p c) = displayHours c \<and>
   displayMinutes (effects p c) = displayMinutes c \<and>
   displaySeconds (effects p c) = displaySeconds c"
  by (simp add: effect_defs Let_def)

lemma countdown_quiet:
  "displayHours p = displayHours c \<Longrightarrow> displayMinutes p = displayMinutes c \<Longrightarrow>
   displaySeconds p = displaySeconds c \<Longrightarrow> countdownDisplayEffect p c s = s"
  by (auto simp add: countdownDisplayEffect_def Let_def)

lemma stepsEffect_none: "steps c = [] \<or> \<not> isUsingSteps c \<Longrightarrow> stepsEffect c s = s"
  by (auto simp add: stepsEffect_def Let_def)

lemma effects_id:
  assumes "stepsArray p = stepsArray c \<and> isUsingSteps p = isUsingSteps c
      \<or> steps c = [] \<or> \<not> isUsingSteps c"
    and "mainTimerRemainingTime p = mainTimerRemainingTime c"
    and "displayHours p = displayHours c" "displayMinutes p = displayMinutes c"
      "displaySeconds p = displaySeconds c"
  shows "effects p c = c"
proof -
  have 1: "countdownDisplayEffect p c c = c" using assms by (simp add: countdown_quiet)
  have 2: "stepsArray p \<noteq> stepsArray c \<or> isUsingSteps p \<noteq> isUsingSteps c \<Longrightarrow> stepsEffect c c = c"
    using assms(1) by (auto simp add: stepsEffect_none)
  show ?thesis
  proof (cases "stepsArray p \<noteq> stepsArray c \<or> isUsingSteps p \<noteq> isUsingSteps c")
    case True
    then show ?thesis using assms(2) 2 by (simp add: effects_def Let_def 1)
  next
    case False
    then show ?thesis using assms(2) by (simp add: effects_def Let_def 1)
  qed
qed

text \<open>
  After the three rounds of \<open>rerender\<close> the state is settled: a further round of effects
  changes nothing, so React renders no more.
\<close>

lemma rerender_settled:
  "effects (effects c (effects p c)) (rerender p c) = rerender p c"
proof -
  define c2 where "c2 = effects p c"
  define c3 where "c3 = effects c c2"
  define c4 where "c4 = effects c2 c3"
  have r: "rerender p c = c4"
    by (simp add: rerender_def Let_def c2_def c3_def c4_def)
  have m23: "mainTimerRemainingTime c3 = mainTimerRemainingTime c2"
    unfolding c3_def c2_def by (rule effects_main) (simp_all add: effects_frame)
  have m34: "mainTimerRemainingTime c4 = mainTimerRemainingTime c3"
    unfolding c4_def by (rule effects_main) (simp_all add: effects_frame c3_def)
  have d34: "displayHours c4 = displayHours c3 \<and> displayMinutes c4 = displayMinutes c3 \<and>
     displaySeconds c4 = displaySeconds c3"
    unfolding c4_def using m23 by (intro effects_display) (simp_all add: effects_frame c3_def)
  have f: "stepsArray c3 = stepsArray c4" "isUsingSteps c3 = isUsingSteps c4"
    by (simp_all add: c4_def effects_frame)
  have "effects c3 c4 = c4"
    using f m34 d34 by (intro effects_id) simp_all
  then show ?thesis by (simp add: r c3_def c2_def)
qed

lemma rerender_same: "rerender c c = c"
  by (simp add: rerender_def Let_def effects_id)

lemma rerender_id:
  assumes "stepsArray p = stepsArray c \<and> isUsingSteps p = isUsingSteps c
      \<or> steps c = [] \<or> \<not> isUsingSteps c"
    and "mainTimerRemainingTime p = mainTimerRemainingTime c"
    and "displayHours p = displayHours c" "displayMinutes p = displayMinutes c"
      "displaySeconds p = displaySeconds c"
  shows "rerender p c = c"
  by (simp add: rerender_def Let_def effects_id[OF assms] effects_id[of c c])

subsection \<open>The display of a number of seconds\<close>

lemma js_rem_nonneg: "0 \<le> t \<Longrightarrow> 0 < b \<Longrightarrow> js_rem t b = t mod b"
  by (simp add: js_rem_def)

lemma display_total:
  assumes "0 \<le> t"
  shows "(t div 3600) * 3600 + (js_rem t 3600 div 60) * 60 + js_rem t 60 = t"
proof -
  have a: "t mod 60 = t mod 3600 mod 60" by (simp add: mod_mod_cancel)
  have b: "t mod 3600 div 60 * 60 + t mod 3600 mod 60 = t mod 3600" by (rule div_mult_mod_eq)
  have c: "t div 3600 * 3600 + t mod 3600 = t" by (rule div_mult_mod_eq)
  have "\<And>x1 x2 x3 x4 x5 :: int. x5 = x3 \<Longrightarrow> x2 * 60 + x3 = x4 \<Longrightarrow> x1 * 3600 + x4 = t \<Longrightarrow>
     x1 * 3600 + x2 * 60 + x5 = t" by simp
  from this[OF a b c] show ?thesis using assms by (simp only: js_rem_nonneg)
qed

lemma display_of_entry:
  assumes "0 \<le> h" "0 \<le> m" "m < 60" "0 \<le> s" "s < 60"
  shows "(h * 3600 + m * 60 + s) div 3600 = h"
    and "js_rem (h * 3600 + m * 60 + s) 3600 div 60 = m"
    and "js_rem (h * 3600 + m * 60 + s) 60 = s"
proof -
  let ?t = "h * 3600 + m * 60 + s"
  have t0: "0 \<le> ?t" using assms by simp
  have lt: "0 \<le> m * 60 + s" "m * 60 + s < 3600" using assms by auto
  have e1: "?t = (m * 60 + s) + h * 3600" by simp
  have "?t div 3600 = h + (m * 60 + s) div 3600"
    unfolding e1 by (rule div_mult_self1) simp
  also have "(m * 60 + s) div 3600 = 0" using lt by (rule div_pos_pos_trivial)
  finally show "?t div 3600 = h" by simp
  have "?t mod 3600 = (m * 60 + s) mod 3600"
    unfolding e1 by (rule mod_mult_self1)
  also have "\<dots> = m * 60 + s" using lt by (rule mod_pos_pos_trivial)
  finally have m1: "?t mod 3600 = s + m * 60" by simp
  have "(s + m * 60) div 60 = m + s div 60" by (rule div_mult_self1) simp
  also have "s div 60 = 0" using assms(4,5) by (rule div_pos_pos_trivial)
  finally have "?t mod 3600 div 60 = m" using m1 by simp
  then show "js_rem ?t 3600 div 60 = m" using t0 by (simp only: js_rem_nonneg)
  have e2: "?t = s + (h * 60 + m) * 60" by simp
  have "?t mod 60 = s mod 60" unfolding e2 by (rule mod_mult_self1)
  also have "\<dots> = s" using assms(4,5) by (rule mod_pos_pos_trivial)
  finally show "js_rem ?t 60 = s" using t0 by (simp only: js_rem_nonneg)
qed

lemma setDisplay_fields:
  "displayHours (setDisplayFromSeconds t s) = t div 3600"
  "displayMinutes (setDisplayFromSeconds t s) = js_rem t 3600 div 60"
  "displaySeconds (setDisplayFromSeconds t s) = js_rem t 60"
  "mainTimerRemainingTime (setDisplayFromSeconds t s) = mainTimerRemainingTime s"
  "stepsArray (setDisplayFromSeconds t s) = stepsArray s"
  "isUsingSteps (setDisplayFromSeconds t s) = isUsingSteps s"
  "isMainTimerRunning (setDisplayFromSeconds t s) = isMainTimerRunning s"
  "isPaused (setDisplayFromSeconds t s) = isPaused s"
  "steps (setDisplayFromSeconds t s) = steps s"
  by (simp_all add: setDisplayFromSeconds_def)

subsection \<open>Renders in which the countdown display raises no alarm\<close>

lemma countdown_effect:
  "countdownDisplayEffect p c s = (if countdownCompletes p c then playAlarm s else s)"
  by (simp add: countdownDisplayEffect_def countdownCompletes_def Let_def)

lemma same_display_quiet:
  "displayHours p = displayHours c \<Longrightarrow> displayMinutes p = displayMinutes c \<Longrightarrow>
   displaySeconds p = displaySeconds c \<Longrightarrow> \<not> countdownCompletes p c"
  by (auto simp add: countdownCompletes_def)

lemma not_running_quiet: "\<not> isMainTimerRunning c \<or> isPaused c \<Longrightarrow> \<not> countdownCompletes p c"
  by (auto simp add: countdownCompletes_def)

lemma shown_seconds_quiet:
  "0 < t \<Longrightarrow> \<not> countdownCompletes p (setDisplayFromSeconds t s)"
  using display_total[of t] by (simp add: countdownCompletes_def setDisplay_fields)

lemma effects_calm:
  assumes "stepsArray p = stepsArray c \<and> isUsingSteps p = isUsingSteps c
      \<or> steps c = [] \<or> \<not> isUsingSteps c"
    and "\<not> countdownCompletes p c"
  shows "effects p c =
     (if mainTimerRemainingTime p \<noteq> mainTimerRemainingTime c \<and> mainTimerRemainingTime c > 0
      then setDisplayFromSeconds (mainTimerRemainingTime c) c else c)"
proof -
  have 1: "countdownDisplayEffect p c c = c" using assms(2) by (simp add: countdown_effect)
  have 2: "(if stepsArray p \<noteq> stepsArray c \<or> isUsingSteps p \<noteq> isUsingSteps c
            then stepsEffect c c else c) = c"
    using assms(1) stepsEffect_none[of c c] by auto
  show ?thesis unfolding effects_def Let_def 1 2 by (simp add: remainingEffect_def)
qed

lemma rerender_calm:
  assumes "stepsArray p = stepsArray c \<and> isUsingSteps p = isUsingSteps c
      \<or> steps c = [] \<or> \<not> isUsingSteps c"
    and "\<not> countdownCompletes p c"
  shows "rerender p c =
     (if mainTimerRemainingTime p \<noteq> mainTimerRemainingTime c \<and> mainTimerRemainingTime c > 0
      then setDisplayFromSeconds (mainTimerRemainingTime c) c else c)"
proof (cases "mainTimerRemainingTime p \<noteq> mainTimerRemainingTime c \<and> mainTimerRemainingTime c > 0")
  case False
  then have 1: "effects p c = c" using effects_calm[OF assms] by auto
  have 2: "effects c c = c" by (rule effects_id) simp_all
  show ?thesis unfolding if_not_P[OF False] by (simp add: rerender_def Let_def 1 2)
next
  case True
  define c2 where "c2 = setDisplayFromSeconds (mainTimerRemainingTime c) c"
  have 1: "effects p c = c2" using True effects_calm[OF assms] by (simp add: c2_def)
  have q: "\<not> countdownCompletes c c2" unfolding c2_def using True by (intro shown_seconds_quiet) simp
  have "effects c c2 =
     (if mainTimerRemainingTime c \<noteq> mainTimerRemainingTime c2 \<and> mainTimerRemainingTime c2 > 0
      then setDisplayFromSeconds (mainTimerRemainingTime c2) c2 else c2)"
    by (rule effects_calm[OF _ q]) (simp add: c2_def setDisplay_fields)
  then have 2: "effects c c2 = c2" by (simp add: c2_def setDisplay_fields)
  have 3: "effects c2 c2 = c2" by (rule effects_id) simp_all
  show ?thesis unfolding if_P[OF True] by (simp add: rerender_def Let_def 1 2 3) (simp add: c2_def)
qed

lemma rerender_calm_fields:
  assumes "stepsArray p = stepsArray c \<and> isUsingSteps p = isUsingSteps c
      \<or> steps c = [] \<or> \<not> isUsingSteps c"
    and "\<not> countdownCompletes p c"
  shows "mainTimerRemainingTime (rerender p c) = mainTimerRemainingTime c"
    and "alarmPlays (rerender p c) = alarmPlays c"
    and "isAlarmPlaying (rerender p c) = isAlarmPlaying c"
  unfolding rerender_calm[OF assms] by (simp_all add: setDisplayFromSeconds_def)

section \<open>The entry fields\<close>

lemma wrapField_mod:
  "0 \<le> v \<Longrightarrow> v < limit \<Longrightarrow> delta = 1 \<or> delta = -1 \<Longrightarrow>
   wrapField limit v delta = (v + delta) mod limit"
proof -
  assume v: "0 \<le> v" "v < limit" and d: "delta = 1 \<or> delta = -1"
  consider "delta = 1" "v + 1 = limit" | "delta = 1" "v + 1 < limit"
    | "delta = -1" "v = 0" | "delta = -1" "0 < v"
    using v d by linarith
  then show ?thesis
  proof cases
    case 1
    then show ?thesis by (simp add: wrapField_def)
  next
    case 2
    then show ?thesis using v by (simp add: wrapField_def mod_pos_pos_trivial)
  next
    case 3
    then show ?thesis using v by (simp add: wrapField_def zmod_minus1)
  next
    case 4
    then show ?thesis using v by (simp add: wrapField_def mod_pos_pos_trivial)
  qed
qed

lemma adjust_running: "isMainTimerRunning c \<Longrightarrow> adjust f delta c = c"
  by (simp add: adjust_def event_def handleTimeChange_def rerender_same)

lemma adjust_entry:
  "\<not> isMainTimerRunning c \<Longrightarrow>
   entryField f (adjust f delta c) = wrapField (fieldLimit f) (entryField f c) delta"
  by (cases f)
    (simp_all add: adjust_def event_def rerender_frame handleTimeChange_def entryField_def
      fieldLimit_def Let_def)

lemma adjust_flags:
  "isMainTimerRunning (adjust f delta c) = isMainTimerRunning c"
  "isPaused (adjust f delta c) = isPaused c"
  "isUsingSteps (adjust f delta c) = isUsingSteps c"
  by (cases f; simp add: adjust_def event_def rerender_frame handleTimeChange_def Let_def)+

lemma adjust_cycle:
  assumes "\<not> isMainTimerRunning c" "0 \<le> entryField f c" "entryField f c < fieldLimit f"
  shows "\<not> isMainTimerRunning ((adjust f 1 ^^ k) c) \<and>
     entryField f ((adjust f 1 ^^ k) c) = (entryField f c + int k) mod fieldLimit f"
proof (induction k)
  case 0
  show ?case using assms by (simp add: mod_pos_pos_trivial)
next
  case (Suc k)
  let ?s = "(adjust f 1 ^^ k) c"
  have lim: "0 < fieldLimit f" by (cases f) (simp_all add: fieldLimit_def)
  have r: "0 \<le> entryField f ?s" "entryField f ?s < fieldLimit f"
    using Suc lim by simp_all
  have "entryField f (adjust f 1 ?s) = (entryField f ?s + 1) mod fieldLimit f"
    using Suc r by (simp add: adjust_entry wrapField_mod)
  also have "\<dots> = (entryField f c + int (Suc k)) mod fieldLimit f"
    using Suc by (simp add: mod_simps ac_simps)
  finally show ?case using Suc by (simp add: adjust_flags)
qed

text \<open>
  Claim C7. While the timer is not running, \<open>adjust\<close> with a delta of +1 or -1 moves an
  entry field of a value in its range (hours 0 to 23, minutes and seconds 0 to 59) by
  the delta modulo the size of the range: one step up from the maximum gives 0, one step
  down from 0 gives the maximum, a step up followed by a step down gives the value back,
  and so does a full cycle of 24 or 60 steps up.
\<close>

theorem adjust_wraps_around:
  assumes "\<not> isMainTimerRunning c"
    and "0 \<le> entryField f c" and "entryField f c < fieldLimit f"
  shows "(\<forall>delta \<in> {1, -1}. entryField f (adjust f delta c) = (entryField f c + delta) mod fieldLimit f)
     \<and> (entryField f c = fieldLimit f - 1 \<longrightarrow> entryField f (adjust f 1 c) = 0)
     \<and> (entryField f c = 0 \<longrightarrow> entryField f (adjust f (-1) c) = fieldLimit f - 1)
     \<and> entryField f (adjust f (-1) (adjust f 1 c)) = entryField f c
     \<and> entryField f ((adjust f 1 ^^ nat (fieldLimit f)) c) = entryField f c"
proof -
  have lim: "0 < fieldLimit f" by (cases f) (simp_all add: fieldLimit_def)
  have step: "entryField f (adjust f delta c) = (entryField f c + delta) mod fieldLimit f"
    if "delta = 1 \<or> delta = -1" for delta
    using assms that by (simp add: adjust_entry wrapField_mod)
  have up: "entryField f c = fieldLimit f - 1 \<longrightarrow> entryField f (adjust f 1 c) = 0"
    using step[of 1] by auto
  have down: "entryField f c = 0 \<longrightarrow> entryField f (adjust f (-1) c) = fieldLimit f - 1"
    using step[of "-1"] lim by (auto simp add: zmod_minus1)
  let ?s = "adjust f 1 c"
  have r: "\<not> isMainTimerRunning ?s" "0 \<le> entryField f ?s" "entryField f ?s < fieldLimit f"
    using assms(1) lim by (simp_all add: adjust_flags step)
  have "entryField f (adjust f (-1) ?s) = (entryField f ?s + (-1)) mod fieldLimit f"
    using r by (simp add: adjust_entry wrapField_mod)
  also have "\<dots> = (entryField f c + 1 - 1) mod fieldLimit f"
    by (simp add: step mod_simps)
  also have "\<dots> = entryField f c" using assms by (simp add: mod_pos_pos_trivial)
  finally have undo: "entryField f (adjust f (-1) ?s) = entryField f c" .
  have "entryField f ((adjust f 1 ^^ nat (fieldLimit f)) c)
      = (entryField f c + int (nat (fieldLimit f))) mod fieldLimit f"
    using adjust_cycle[OF assms] by simp
  also have "\<dots> = entryField f c" using assms lim by (simp add: mod_pos_pos_trivial)
  finally have cycle: "entryField f ((adjust f 1 ^^ nat (fieldLimit f)) c) = entryField f c" .
  show ?thesis using step up down undo cycle by simp
qed

theorem adjust_wraps_around_witness:
  "\<not> isMainTimerRunning (mounted [])
   \<and> entryField Hours (adjust Hours 1 (mounted [])) = 1
   \<and> entryField Hours (adjust Hours (-1) (mounted [])) = 23
   \<and> entryField Hours (adjust Hours (-1) (adjust Hours 1 (mounted []))) = 0
   \<and> entryField Hours ((adjust Hours 1 ^^ 24) (mounted [])) = 0"
  using adjust_wraps_around[of "mounted []" Hours]
  by (simp add: mounted_def entryField_def fieldLimit_def)

lemma adjust_idle:
  assumes "\<not> isMainTimerRunning c"
  shows "adjust f delta c =
    (let c1 = handleTimeChange f delta c in
     if mainTimerRemainingTime c \<noteq> mainTimerRemainingTime c1 \<and> mainTimerRemainingTime c1 > 0
     then setDisplayFromSeconds (mainTimerRemainingTime c1) c1 else c1)"
proof -
  let ?c1 = "handleTimeChange f delta c"
  have f: "stepsArray c = stepsArray ?c1" "isUsingSteps c = isUsingSteps ?c1"
    "\<not> isMainTimerRunning ?c1"
    using assms by (cases f; simp add: handleTimeChange_def Let_def)+
  show ?thesis unfolding adjust_def event_def Let_def
    by (rule rerender_calm) (use f in \<open>simp_all add: not_running_quiet\<close>)
qed

lemma handleTimeChange_simple:
  assumes "\<not> isMainTimerRunning c" "\<not> isUsingSteps c"
  shows "mainTimerRemainingTime (handleTimeChange f delta c) = inputTotal c"
    "displayHours (handleTimeChange f delta c) = inputHours c"
    "displayMinutes (handleTimeChange f delta c) = inputMinutes c"
    "displaySeconds (handleTimeChange f delta c) = inputSeconds c"
  using assms by (cases f; simp add: handleTimeChange_def Let_def inputTotal_def)+

lemma wrapField_moves:
  "1 < limit \<Longrightarrow> delta = 1 \<or> delta = -1 \<Longrightarrow> wrapField limit v delta \<noteq> v"
  by (auto simp add: wrapField_def Let_def)

lemma adjust_inputTotal:
  assumes "\<not> isMainTimerRunning c" "delta = 1 \<or> delta = -1"
  shows "inputTotal (adjust f delta c) \<noteq> inputTotal c"
proof -
  have "inputTotal (adjust f delta c) = inputTotal (handleTimeChange f delta c)"
    by (simp add: adjust_def event_def inputTotal_def rerender_frame)
  moreover have "inputTotal (handleTimeChange f delta c) \<noteq> inputTotal c"
    using assms wrapField_moves[of 24 delta "inputHours c"] wrapField_moves[of 60 delta "inputMinutes c"]
      wrapField_moves[of 60 delta "inputSeconds c"]
    by (cases f; simp add: handleTimeChange_def Let_def inputTotal_def)
  ultimately show ?thesis by simp
qed

text \<open>
  Claim C10. While the timer is not running and no steps are in use, \<open>adjust\<close> seeds the
  remaining time and the display from the entry fields as they were before the adjustment:
  the total is computed in the closure of the last render (line 309), while the new value
  of the field is only queued. So after the adjustment the seeded time differs from the
  total of the entry fields: it lags one adjustment behind.
\<close>

theorem adjust_seeds_previous_entry:
  assumes "\<not> isMainTimerRunning c" and "\<not> isUsingSteps c"
    and "0 \<le> inputHours c"
    and "0 \<le> inputMinutes c" and "inputMinutes c < 60"
    and "0 \<le> inputSeconds c" and "inputSeconds c < 60"
    and "delta = 1 \<or> delta = -1"
  shows "mainTimerRemainingTime (adjust f delta c)
       = inputHours c * 3600 + inputMinutes c * 60 + inputSeconds c
     \<and> displayHours (adjust f delta c) = inputHours c
     \<and> displayMinutes (adjust f delta c) = inputMinutes c
     \<and> displaySeconds (adjust f delta c) = inputSeconds c
     \<and> mainTimerRemainingTime (adjust f delta c) \<noteq> inputTotal (adjust f delta c)"
proof -
  let ?c1 = "handleTimeChange f delta c"
  note h = handleTimeChange_simple[OF assms(1,2), of f delta]
  note d = display_of_entry[OF assms(3-7)]
  have m: "mainTimerRemainingTime (adjust f delta c) = inputTotal c"
    by (simp add: adjust_idle[OF assms(1)] Let_def setDisplay_fields h)
  have dh: "displayHours (adjust f delta c) = inputHours c"
    and dm: "displayMinutes (adjust f delta c) = inputMinutes c"
    and ds: "displaySeconds (adjust f delta c) = inputSeconds c"
    using d by (simp_all add: adjust_idle[OF assms(1)] Let_def setDisplay_fields h inputTotal_def)
  show ?thesis using m dh dm ds adjust_inputTotal[OF assms(1,8), of f]
    by (simp add: inputTotal_def)
qed

theorem adjust_seeds_previous_entry_witness:
  "mainTimerRemainingTime (adjust Seconds 1 (mounted [])) = 0
   \<and> inputSeconds (adjust Seconds 1 (mounted [])) = 1
   \<and> mainTimerRemainingTime (adjust Seconds 1 (adjust Seconds 1 (mounted []))) = 1
   \<and> displaySeconds (adjust Seconds 1 (adjust Seconds 1 (mounted []))) = 1
   \<and> inputSeconds (adjust Seconds 1 (adjust Seconds 1 (mounted []))) = 2"
proof -
  let ?c = "adjust Seconds 1 (mounted [])"
  have c: "\<not> isMainTimerRunning ?c" "\<not> isUsingSteps ?c" "inputHours ?c = 0" "inputMinutes ?c = 0"
    "inputSeconds ?c = 1"
    by (simp_all add: adjust_flags adjust_def event_def rerender_frame handleTimeChange_def
        wrapField_def mounted_def)
  have 0: "mainTimerRemainingTime ?c = 0"
    using adjust_seeds_previous_entry[of "mounted []" 1 Seconds] by (simp add: mounted_def)
  have 1: "mainTimerRemainingTime (adjust Seconds 1 ?c) = 1 \<and> displaySeconds (adjust Seconds 1 ?c) = 1"
    using adjust_seeds_previous_entry[of ?c 1 Seconds] c by simp
  have 2: "inputSeconds (adjust Seconds 1 ?c) = 2"
    using adjust_entry[of ?c Seconds 1] c by (simp add: entryField_def fieldLimit_def wrapField_def)
  show ?thesis using c 0 1 2 by simp
qed

lemma pause_flags:
  "isPaused (pause c)" "\<not> isMainTimerRunning (pause c)"
  "entryField f (pause c) = entryField f c"
  by (simp_all add: pause_def event_def rerender_frame pauseMainTimer_def entryField_def split: time_unit.split)

text \<open>
  Claim C6, as amended. The guard of \<open>handleTimeChange\<close> is \<open>isMainTimerRunning\<close> alone
  (line 279): while the timer is running, \<open>adjust\<close> changes nothing at all. \<open>pause\<close>
  clears \<open>isMainTimerRunning\<close> (line 356), so a paused timer is not covered by the guard:
  whenever \<open>isMainTimerRunning\<close> is false, paused or idle, \<open>adjust\<close> with a delta of +1
  or -1 moves the field, by the delta modulo the size of its range.
\<close>

theorem adjust_blocked_while_running:
  "(isMainTimerRunning c \<longrightarrow> adjust f delta c = c)
   \<and> isPaused (pause c) \<and> \<not> isMainTimerRunning (pause c)
   \<and> (\<not> isMainTimerRunning c \<and> 0 \<le> entryField f c \<and> entryField f c < fieldLimit f
        \<and> (delta = 1 \<or> delta = -1) \<longrightarrow>
      entryField f (adjust f delta c) = (entryField f c + delta) mod fieldLimit f
      \<and> entryField f (adjust f delta c) \<noteq> entryField f c)"
proof -
  have lim: "1 < fieldLimit f" by (cases f) (simp_all add: fieldLimit_def)
  have "entryField f (adjust f delta c) = (entryField f c + delta) mod fieldLimit f
      \<and> entryField f (adjust f delta c) \<noteq> entryField f c"
    if "\<not> isMainTimerRunning c" "0 \<le> entryField f c" "entryField f c < fieldLimit f"
      "delta = 1 \<or> delta = -1"
    using that lim wrapField_moves[of "fieldLimit f" delta "entryField f c"]
    by (simp add: adjust_entry wrapField_mod[symmetric])
  with adjust_running[of c f delta] pause_flags(1,2)[of c] show ?thesis by blast
qed

theorem adjust_blocked_while_running_witness:
  "isMainTimerRunning (start (adjust Seconds 1 (mounted [])))
   \<and> adjust Hours 1 (start (adjust Seconds 1 (mounted []))) = start (adjust Seconds 1 (mounted []))
   \<and> isPaused (pause (start (adjust Seconds 1 (mounted []))))
   \<and> entryField Hours (adjust Hours 1 (pause (start (adjust Seconds 1 (mounted []))))) = 1"
proof -
  let ?r = "start (adjust Seconds 1 (mounted []))"
  have r: "isMainTimerRunning ?r" by (simp add: model_defs)
  have p: "entryField Hours (pause ?r) = 0"
    by (simp add: pause_flags) (simp add: model_defs entryField_def)
  show ?thesis
    using adjust_blocked_while_running[of ?r Hours 1]
      adjust_blocked_while_running[of "pause ?r" Hours 1] r p
    by (simp add: fieldLimit_def)
qed

text \<open>
  Claim C6 as stated fails while paused: one second entered, the timer started and paused,
  then the hours wheel turned up by one changes \<open>inputHours\<close> from 0 to 1.
\<close>

theorem adjust_while_paused_counterexample:
  "isPaused (pause (start (adjust Seconds 1 (mounted []))))
   \<and> inputHours (pause (start (adjust Seconds 1 (mounted [])))) = 0
   \<and> inputHours (adjust Hours 1 (pause (start (adjust Seconds 1 (mounted []))))) = 1"
  by (simp add: model_defs)

section \<open>The total of the durations\<close>

lemma foldl_durations:
  "foldl (\<lambda>total step. total + duration step) a xs = a + sum_list (map duration xs)"
  by (induction xs arbitrary: a) simp_all

lemma totalDuration_sum: "totalDuration xs = sum_list (map duration xs)"
  by (simp add: totalDuration_def foldl_durations)

lemma totalDuration_simps:
  "totalDuration [] = 0"
  "totalDuration (x # xs) = duration x + totalDuration xs"
  by (simp_all add: totalDuration_sum)

lemma totalDuration_nonneg:
  "\<forall>st \<in> set xs. 1 \<le> duration st \<Longrightarrow> 0 \<le> totalDuration xs"
  by (induction xs) (simp_all add: totalDuration_simps)

lemma totalDuration_pos:
  "xs \<noteq> [] \<Longrightarrow> \<forall>st \<in> set xs. 1 \<le> duration st \<Longrightarrow> 0 < totalDuration xs"
  using totalDuration_nonneg[of "tl xs"] by (cases xs) (auto simp add: totalDuration_simps)

lemma totalDuration_drop:
  "i < length xs \<Longrightarrow> totalDuration (drop i xs) = duration (xs ! i) + totalDuration (drop (Suc i) xs)"
  by (simp add: Cons_nth_drop_Suc[symmetric] totalDuration_simps)

lemma totalDuration_drop_nonneg:
  "\<forall>st \<in> set xs. 1 \<le> duration st \<Longrightarrow> 0 \<le> totalDuration (drop i xs)"
  by (rule totalDuration_nonneg) (auto dest: in_set_dropD)

section \<open>Start, pause, resume and reset\<close>

lemma effects_main':
  "stepsArray p = stepsArray c \<and> isUsingSteps p = isUsingSteps c
      \<or> steps c = [] \<or> \<not> isUsingSteps c \<Longrightarrow>
   mainTimerRemainingTime (effects p c) = mainTimerRemainingTime c"
  by (auto simp add: effect_defs Let_def)

lemma rerender_main:
  assumes "stepsArray p = stepsArray c \<and> isUsingSteps p = isUsingSteps c
      \<or> steps c = [] \<or> \<not> isUsingSteps c"
  shows "mainTimerRemainingTime (rerender p c) = mainTimerRemainingTime c"
proof -
  have 1: "mainTimerRemainingTime (effects p c) = mainTimerRemainingTime c"
    by (rule effects_main'[OF assms])
  have 2: "mainTimerRemainingTime (effects c (effects p c)) = mainTimerRemainingTime (effects p c)"
    by (rule effects_main) (simp_all add: effects_frame)
  have 3: "mainTimerRemainingTime (effects (effects p c) (effects c (effects p c)))
      = mainTimerRemainingTime (effects c (effects p c))"
    by (rule effects_main) (simp_all add: effects_frame)
  show ?thesis by (simp add: rerender_def Let_def 1 2 3)
qed

lemma start_counters:
  "steps (start s) = steps s"
  "currentStepIndex (start s) =
     (if steps s \<noteq> [] \<and> \<not> isPaused s \<and> \<not> isMainTimerRunning s then 0 else currentStepIndex s)"
  "remainingTime (start s) =
     (if steps s \<noteq> [] \<and> \<not> isPaused s \<and> \<not> isMainTimerRunning s then duration (steps s ! 0)
      else remainingTime s)"
  "isUsingSteps (start s) = (steps s \<noteq> [] \<or> isUsingSteps s \<and> inputTotal s \<le> 0)"
  "isMainTimerRunning (start s) = (isMainTimerRunning s \<or> steps s \<noteq> [] \<or> 0 < inputTotal s)"
  "steps s \<noteq> [] \<Longrightarrow> \<not> isPaused (start s)"
  by (auto simp add: start_def event_def rerender_frame startMainTimer_def stopAlarm_def Let_def
      inputTotal_def)

lemma start_main:
  assumes "modeConsistent s"
  shows "mainTimerRemainingTime (start s) =
     (if steps s = [] \<and> 0 < inputTotal s \<and> \<not> isMainTimerRunning s then inputTotal s
      else mainTimerRemainingTime s)"
proof -
  define c1 where "c1 = startMainTimer s"
  have f: "steps c1 = steps s" "stepsArray c1 = stepsArray s"
    "isUsingSteps c1 = (steps s \<noteq> [] \<or> isUsingSteps s \<and> inputTotal s \<le> 0)"
    "mainTimerRemainingTime c1 =
     (if steps s = [] \<and> 0 < inputTotal s \<and> \<not> isMainTimerRunning s then inputTotal s
      else mainTimerRemainingTime s)"
    by (auto simp add: c1_def startMainTimer_def stopAlarm_def Let_def inputTotal_def)
  have d: "stepsArray s = stepsArray c1 \<and> isUsingSteps s = isUsingSteps c1
      \<or> steps c1 = [] \<or> \<not> isUsingSteps c1"
    using assms by (auto simp add: f modeConsistent_def)
  have "start s = rerender s c1" by (simp add: start_def event_def c1_def)
  then show ?thesis by (simp add: rerender_main[OF d] f)
qed

lemma pause_counters:
  "steps (pause s) = steps s" "isUsingSteps (pause s) = isUsingSteps s"
  "currentStepIndex (pause s) = currentStepIndex s" "remainingTime (pause s) = remainingTime s"
  "mainTimerRemainingTime (pause s) = mainTimerRemainingTime s"
  "isPaused (pause s)" "\<not> isMainTimerRunning (pause s)"
  by (simp_all add: pause_def event_def rerender_frame rerender_main pauseMainTimer_def)

lemma resume_counters:
  "steps (resume s) = steps s" "isUsingSteps (resume s) = isUsingSteps s"
  "currentStepIndex (resume s) = currentStepIndex s" "remainingTime (resume s) = remainingTime s"
  "mainTimerRemainingTime (resume s) = mainTimerRemainingTime s"
  "\<not> isPaused (resume s)" "isMainTimerRunning (resume s)"
  by (simp_all add: resume_def event_def rerender_frame rerender_main resumeMainTimer_def)

lemma reset_fields:
  "steps (reset s) = steps s" "isUsingSteps (reset s) = isUsingSteps s"
  "inputTotal (reset s) = inputTotal s"
  "currentStepIndex (reset s) = 0"
  "remainingTime (reset s) =
     (if isUsingSteps s \<and> steps s \<noteq> [] then duration (steps s ! 0) else remainingTime s)"
  "mainTimerRemainingTime (reset s) =
     (if isUsingSteps s \<and> steps s \<noteq> [] then totalDuration (steps s) else inputTotal s)"
  "\<not> isPaused (reset s)" "\<not> isMainTimerRunning (reset s)" "\<not> isRunning (reset s)"
  "\<not> isAlarmPlaying (reset s)"
proof -
  define c1 where "c1 = resetMainTimer s"
  have f: "steps c1 = steps s" "stepsArray c1 = stepsArray s" "isUsingSteps c1 = isUsingSteps s"
    "inputTotal c1 = inputTotal s" "currentStepIndex c1 = 0"
    "remainingTime c1 =
     (if isUsingSteps s \<and> steps s \<noteq> [] then duration (steps s ! 0) else remainingTime s)"
    "mainTimerRemainingTime c1 =
     (if isUsingSteps s \<and> steps s \<noteq> [] then totalDuration (steps s) else inputTotal s)"
    "\<not> isPaused c1" "\<not> isMainTimerRunning c1" "\<not> isRunning c1" "\<not> isAlarmPlaying c1"
    by (simp_all add: c1_def resetMainTimer_def stopAlarm_def Let_def inputTotal_def)
  have q: "\<not> countdownCompletes s c1" using f(9) by (intro not_running_quiet) simp
  have d: "stepsArray s = stepsArray c1 \<and> isUsingSteps s = isUsingSteps c1
      \<or> steps c1 = [] \<or> \<not> isUsingSteps c1" by (simp add: f)
  have r: "reset s = rerender s c1" by (simp add: reset_def event_def c1_def)
  show "steps (reset s) = steps s" "isUsingSteps (reset s) = isUsingSteps s"
    "inputTotal (reset s) = inputTotal s"
    "currentStepIndex (reset s) = 0"
    "remainingTime (reset s) =
     (if isUsingSteps s \<and> steps s \<noteq> [] then duration (steps s ! 0) else remainingTime s)"
    "mainTimerRemainingTime (reset s) =
     (if isUsingSteps s \<and> steps s \<noteq> [] then totalDuration (steps s) else inputTotal s)"
    "\<not> isPaused (reset s)" "\<not> isMainTimerRunning (reset s)" "\<not> isRunning (reset s)"
    "\<not> isAlarmPlaying (reset s)"
    using f by (simp_all add: r rerender_frame rerender_calm_fields[OF d q] inputTotal_def)
qed

text \<open>
  Claim C5, as amended. \<open>start\<close> on a running timer raises no error and leaves the status,
  every counter, the active step index, the entry fields, the display and the steps as
  they are; but it calls \<open>stopAlarm\<close> unconditionally (line 351), so a sounding alarm is
  silenced, and it sets \<open>isUsingSteps\<close> from the step list (lines 328 and 341).
\<close>

theorem start_while_running:
  assumes "isMainTimerRunning c" and "\<not> isPaused c" and "modeConsistent c"
  shows "start c = c\<lparr>isUsingSteps := (steps c \<noteq> [] \<or> isUsingSteps c \<and> inputTotal c \<le> 0),
                    isAlarmPlaying := False\<rparr>"
proof -
  let ?c1 = "c\<lparr>isUsingSteps := (steps c \<noteq> [] \<or> isUsingSteps c \<and> inputTotal c \<le> 0),
                    isAlarmPlaying := False\<rparr>"
  have 1: "startMainTimer c = ?c1"
    using assms by (auto simp add: startMainTimer_def stopAlarm_def Let_def inputTotal_def modeConsistent_def)
  have "rerender c ?c1 = ?c1"
    by (rule rerender_id) (use assms(3) in \<open>auto simp add: modeConsistent_def\<close>)
  then show ?thesis by (simp add: start_def event_def 1)
qed

theorem start_while_running_witness:
  "isMainTimerRunning (start (appendStep 7 (adjust Seconds 1 (mounted []))))
   \<and> \<not> isPaused (start (appendStep 7 (adjust Seconds 1 (mounted []))))
   \<and> steps (start (appendStep 7 (adjust Seconds 1 (mounted [])))) \<noteq> []
   \<and> start (start (appendStep 7 (adjust Seconds 1 (mounted []))))
      = start (appendStep 7 (adjust Seconds 1 (mounted [])))"
proof -
  let ?r = "start (appendStep 7 (adjust Seconds 1 (mounted [])))"
  have r: "isMainTimerRunning ?r" "\<not> isPaused ?r" "steps ?r \<noteq> []" "isUsingSteps ?r"
    "\<not> isAlarmPlaying ?r"
    by (simp_all add: model_defs)
  have "start ?r = ?r\<lparr>isUsingSteps := True, isAlarmPlaying := False\<rparr>"
    using start_while_running[of ?r] r by (simp add: modeConsistent_def)
  then show ?thesis using r by simp
qed

text \<open>
  Claim C5 as stated fails on the alarm: with two steps of one second each, the first tick
  ends the first step and sounds the alarm while the timer keeps running; \<open>start\<close> in that
  state silences it.
\<close>

theorem start_while_running_counterexample:
  "tick (start (appendStep 2 (appendStep 1 (adjust Seconds 1 (mounted []))))) \<noteq> None
   \<and> isMainTimerRunning (the (tick (start (appendStep 2 (appendStep 1 (adjust Seconds 1 (mounted [])))))))
   \<and> \<not> isPaused (the (tick (start (appendStep 2 (appendStep 1 (adjust Seconds 1 (mounted [])))))))
   \<and> isAlarmPlaying (the (tick (start (appendStep 2 (appendStep 1 (adjust Seconds 1 (mounted [])))))))
   \<and> \<not> isAlarmPlaying
        (start (the (tick (start (appendStep 2 (appendStep 1 (adjust Seconds 1 (mounted []))))))))"
  by (simp add: model_defs)

text \<open>
  Claim C4, as amended. \<open>reset\<close> from any state of the page (running, paused or idle)
  gives an idle timer with a silent alarm and step index 0. With steps it seeds the
  remaining time of the step with the duration of the first step and the remaining time
  of the whole timer with the total of all steps. Without steps it seeds the remaining
  time of the whole timer with the total of the entry fields and leaves the remaining time
  of the step as it was. A \<open>start\<close> right after it leaves these counters as they are.
\<close>

theorem reset_reseeds:
  assumes "modeConsistent c"
  shows "\<not> isMainTimerRunning (reset c) \<and> \<not> isPaused (reset c) \<and> \<not> isRunning (reset c)
     \<and> \<not> isAlarmPlaying (reset c)
     \<and> currentStepIndex (reset c) = 0
     \<and> (steps c \<noteq> [] \<longrightarrow> remainingTime (reset c) = duration (steps c ! 0)
            \<and> mainTimerRemainingTime (reset c) = totalDuration (steps c))
     \<and> (steps c = [] \<longrightarrow> remainingTime (reset c) = remainingTime c
            \<and> mainTimerRemainingTime (reset c) = inputTotal c)
     \<and> currentStepIndex (start (reset c)) = currentStepIndex (reset c)
     \<and> remainingTime (start (reset c)) = remainingTime (reset c)
     \<and> mainTimerRemainingTime (start (reset c)) = mainTimerRemainingTime (reset c)"
proof -
  have m: "modeConsistent (reset c)"
    using assms by (simp add: modeConsistent_def reset_fields)
  have u: "steps c \<noteq> [] \<Longrightarrow> isUsingSteps c" using assms by (simp add: modeConsistent_def)
  show ?thesis
    using u by (auto simp add: reset_fields start_counters start_main[OF m])
qed

theorem reset_reseeds_witness:
  "isMainTimerRunning (the (tick (start (appendStep 2 (appendStep 1 (adjust Seconds 1 (mounted [])))))))
   \<and> isAlarmPlaying (the (tick (start (appendStep 2 (appendStep 1 (adjust Seconds 1 (mounted [])))))))
   \<and> currentStepIndex (the (tick (start (appendStep 2 (appendStep 1 (adjust Seconds 1 (mounted []))))))) = 1
   \<and> mainTimerRemainingTime (the (tick (start (appendStep 2 (appendStep 1 (adjust Seconds 1 (mounted []))))))) = 1
   \<and> \<not> isMainTimerRunning (reset (the (tick (start (appendStep 2 (appendStep 1 (adjust Seconds 1 (mounted []))))))))
   \<and> \<not> isAlarmPlaying (reset (the (tick (start (appendStep 2 (appendStep 1 (adjust Seconds 1 (mounted []))))))))
   \<and> currentStepIndex (reset (the (tick (start (appendStep 2 (appendStep 1 (adjust Seconds 1 (mounted [])))))))) = 0
   \<and> remainingTime (reset (the (tick (start (appendStep 2 (appendStep 1 (adjust Seconds 1 (mounted [])))))))) = 1
   \<and> mainTimerRemainingTime (reset (the (tick (start (appendStep 2 (appendStep 1 (adjust Seconds 1 (mounted [])))))))) = 2"
proof -
  let ?c = "the (tick (start (appendStep 2 (appendStep 1 (adjust Seconds 1 (mounted []))))))"
  have c: "isMainTimerRunning ?c" "isAlarmPlaying ?c" "currentStepIndex ?c = 1"
    "mainTimerRemainingTime ?c = 1" "isUsingSteps ?c"
    "steps ?c = [\<lparr>step_id = 1, step_name = ''Step 1'', duration = 1\<rparr>,
        \<lparr>step_id = 2, step_name = ''Step 2'', duration = 1\<rparr>]"
    by (simp_all add: model_defs decimal.simps)
  have "modeConsistent ?c" using c(5) by (simp add: modeConsistent_def)
  from reset_reseeds[OF this] show ?thesis
    using c by (simp add: totalDuration_simps)
qed

text \<open>
  Claim C4 as stated fails on the remaining time of the step without steps: the else
  branch of \<open>resetMainTimer\<close> (lines 374-380) does not call \<open>setRemainingTime\<close>, and
  neither does \<open>startMainTimer\<close> without steps (lines 340-348). With no steps and an entry
  of one second, \<open>reset\<close> seeds the whole timer with 1 and leaves the step at 0, and the
  \<open>start\<close> after it runs with the step still at 0.
\<close>

theorem reset_leaves_step_counterexample:
  "steps (adjust Seconds 1 (mounted [])) = []
   \<and> inputTotal (adjust Seconds 1 (mounted [])) = 1
   \<and> currentStepIndex (reset (adjust Seconds 1 (mounted []))) = 0
   \<and> mainTimerRemainingTime (reset (adjust Seconds 1 (mounted []))) = 1
   \<and> remainingTime (reset (adjust Seconds 1 (mounted []))) = 0
   \<and> isMainTimerRunning (start (reset (adjust Seconds 1 (mounted []))))
   \<and> mainTimerRemainingTime (start (reset (adjust Seconds 1 (mounted [])))) = 1
   \<and> remainingTime (start (reset (adjust Seconds 1 (mounted [])))) = 0"
  by (simp add: model_defs inputTotal_def)

subsection \<open>Mode and steps agree\<close>

lemma intervalCallback_mode:
  assumes "intervalCallback c = Some s"
  shows "steps s = steps c \<and> isUsingSteps s = isUsingSteps c"
  using assms
  by (auto simp add: intervalCallback_def remainingTimeUpdater_def mainTimerUpdater_def
      simpleTimerUpdater_def resetSteps_def playAlarm_def setDisplayFromSeconds_def Let_def
      split: if_splits list.splits)

lemma modeConsistent_kept:
  "modeConsistent (mounted stored)"
  "modeConsistent c \<Longrightarrow> modeConsistent (adjust f delta c)"
  "modeConsistent c \<Longrightarrow> modeConsistent (start c)"
  "modeConsistent c \<Longrightarrow> modeConsistent (pause c)"
  "modeConsistent c \<Longrightarrow> modeConsistent (resume c)"
  "modeConsistent c \<Longrightarrow> modeConsistent (reset c)"
  "modeConsistent c \<Longrightarrow> modeConsistent (appendStep now c)"
  "modeConsistent c \<Longrightarrow> modeConsistent (removeStep stepId c)"
  "modeConsistent c \<Longrightarrow> modeConsistent (clearSteps c)"
  "modeConsistent c \<Longrightarrow> modeConsistent (saveAsPreset now nm c)"
  "modeConsistent c \<Longrightarrow> modeConsistent (event (loadPreset preset) c)"
  "modeConsistent c \<Longrightarrow> modeConsistent (event (deletePreset presetId) c)"
  "modeConsistent c \<Longrightarrow> modeConsistent (event clearTimeInput c)"
  "modeConsistent c \<Longrightarrow> tick c = Some s \<Longrightarrow> modeConsistent s"
proof -
  show "modeConsistent (mounted stored)" by (simp add: modeConsistent_def mounted_def)
  show "modeConsistent c \<Longrightarrow> modeConsistent (adjust f delta c)"
    by (cases f; auto simp add: modeConsistent_def adjust_def event_def rerender_frame
        handleTimeChange_def Let_def)
  show "modeConsistent c \<Longrightarrow> modeConsistent (start c)"
    by (auto simp add: modeConsistent_def start_counters)
  show "modeConsistent c \<Longrightarrow> modeConsistent (pause c)"
    by (auto simp add: modeConsistent_def pause_counters)
  show "modeConsistent c \<Longrightarrow> modeConsistent (resume c)"
    by (auto simp add: modeConsistent_def resume_counters)
  show "modeConsistent c \<Longrightarrow> modeConsistent (reset c)"
    by (auto simp add: modeConsistent_def reset_fields)
  show "modeConsistent c \<Longrightarrow> modeConsistent (appendStep now c)"
    by (auto simp add: modeConsistent_def appendStep_def event_def rerender_frame addStep_def Let_def)
  show "modeConsistent c \<Longrightarrow> modeConsistent (removeStep stepId c)"
    by (auto simp add: modeConsistent_def removeStep_def event_def rerender_frame deleteStep_def
        Let_def)
  show "modeConsistent c \<Longrightarrow> modeConsistent (clearSteps c)"
    by (auto simp add: modeConsistent_def clearSteps_def event_def rerender_frame clearAllSteps_def
        Let_def)
  show "modeConsistent c \<Longrightarrow> modeConsistent (saveAsPreset now nm c)"
    by (auto simp add: modeConsistent_def saveAsPreset_def event_def rerender_frame savePreset_def
        Let_def)
  show "modeConsistent c \<Longrightarrow> modeConsistent (event (loadPreset preset) c)"
    by (auto simp add: modeConsistent_def event_def rerender_frame loadPreset_def)
  show "modeConsistent c \<Longrightarrow> modeConsistent (event (deletePreset presetId) c)"
    by (auto simp add: modeConsistent_def event_def rerender_frame deletePreset_def Let_def)
  show "modeConsistent c \<Longrightarrow> modeConsistent (event clearTimeInput c)"
    by (auto simp add: modeConsistent_def event_def rerender_frame clearTimeInput_def Let_def)
  show "modeConsistent c \<Longrightarrow> tick c = Some s \<Longrightarrow> modeConsistent s"
    using intervalCallback_mode
    by (auto simp add: modeConsistent_def tick_def rerender_frame split: if_splits)
qed

section \<open>The step list\<close>

lemma rerender_main_steps:
  assumes "stepsArray p \<noteq> stepsArray c" "steps c \<noteq> []" "isUsingSteps c"
  shows "mainTimerRemainingTime (rerender p c) = totalDuration (steps c)"
proof -
  have 1: "mainTimerRemainingTime (effects p c) = totalDuration (steps c)"
    using assms by (simp add: effect_defs Let_def)
  have 2: "mainTimerRemainingTime (effects c (effects p c)) = mainTimerRemainingTime (effects p c)"
    by (rule effects_main) (simp_all add: effects_frame)
  have 3: "mainTimerRemainingTime (effects (effects p c) (effects c (effects p c)))
      = mainTimerRemainingTime (effects c (effects p c))"
    by (rule effects_main) (simp_all add: effects_frame)
  show ?thesis by (simp add: rerender_def Let_def 1 2 3)
qed

text \<open>
  A seeded state is what appending a step to an idle timer gives: the effect of lines
  217-231 runs on the new step list and sets the remaining time to its total.
\<close>

lemma appendStep_seeded:
  assumes "\<not> isMainTimerRunning c" "\<not> isPaused c" "0 < inputTotal c"
    and "\<forall>st \<in> set (steps c). 1 \<le> duration st"
    and "totalDuration (steps c) + inputTotal c < 9007199254740992"
  shows "seeded (appendStep now c)"
proof -
  define c1 where "c1 = addStep now c"
  have f: "steps c1 \<noteq> []" "\<forall>st \<in> set (steps c1). 1 \<le> duration st" "isUsingSteps c1"
    "\<not> isMainTimerRunning c1" "\<not> isPaused c1" "stepsArray c \<noteq> stepsArray c1"
    "totalDuration (steps c1) < 9007199254740992"
    using assms by (auto simp add: c1_def addStep_def Let_def inputTotal_def totalDuration_sum)
  have "appendStep now c = rerender c c1" by (simp add: appendStep_def event_def c1_def)
  then show ?thesis
    using f rerender_main_steps[OF f(6,1,3)] by (simp add: seeded_def rerender_frame)
qed

lemma appendStep_rejects:
  "inputTotal c \<le> 0 \<Longrightarrow> appendStep now c = c"
  by (simp add: appendStep_def event_def addStep_def inputTotal_def rerender_same)

lemma appendStep_appends:
  "0 < inputTotal c \<Longrightarrow>
   steps (appendStep now c) = steps c @
     [\<lparr>step_id = now,
       step_name = (if timerName c \<noteq> [] then timerName c
                    else ''Step '' @ decimal (length (steps c) + 1)),
       duration = inputTotal c\<rparr>]"
  by (simp add: appendStep_def event_def addStep_def inputTotal_def rerender_frame Let_def)

text \<open>
  Claim C8 on the code: \<open>addStep\<close> has no guard on \<open>isRunning\<close> (\<open>deleteStep\<close> and
  \<open>clearAllSteps\<close> have one, lines 398 and 426). With one step of one second and the timer
  running, a second \<open>appendStep\<close> makes the step list two steps long.
\<close>

theorem append_while_running:
  "isRunning (start (appendStep 1 (adjust Seconds 1 (mounted []))))
   \<and> isMainTimerRunning (start (appendStep 1 (adjust Seconds 1 (mounted []))))
   \<and> \<not> isPaused (start (appendStep 1 (adjust Seconds 1 (mounted []))))
   \<and> length (steps (start (appendStep 1 (adjust Seconds 1 (mounted []))))) = 1
   \<and> length (steps (appendStep 2 (start (appendStep 1 (adjust Seconds 1 (mounted [])))))) = 2"
  by (simp add: model_defs)

subsection \<open>Presets\<close>

lemma mutate_presets:
  "presets (mutate m s) = presets s \<and> storage (mutate m s) = storage s"
  by (cases m)
    (simp_all add: appendStep_def removeStep_def clearSteps_def event_def rerender_frame
      addStep_def deleteStep_def clearAllSteps_def Let_def)

lemma mutations_presets:
  "presets (fold mutate ms s) = presets s \<and> storage (fold mutate ms s) = storage s"
  by (induction ms arbitrary: s) (simp_all add: mutate_presets)

text \<open>
  Claim C9. No handler changes an array in place: \<open>addStep\<close> and \<open>deleteStep\<close> build a new
  array (lines 419 and 427), \<open>clearAllSteps\<close> stores an empty one, and \<open>savePreset\<close> stores a
  copy (line 439). So after any sequence of appended, removed and cleared steps the saved
  preset, in the state and in storage, still holds the steps of the moment it was saved.
\<close>

theorem preset_snapshot_independent:
  assumes "steps c \<noteq> []"
  shows "presets (fold mutate ms (saveAsPreset now nm c))
       = presets c @ [\<lparr>preset_id = now, preset_name = nm, preset_steps = steps c\<rparr>]
     \<and> storage (fold mutate ms (saveAsPreset now nm c))
       = presets c @ [\<lparr>preset_id = now, preset_name = nm, preset_steps = steps c\<rparr>]"
  using assms
  by (simp add: mutations_presets saveAsPreset_def event_def rerender_frame savePreset_def Let_def)

theorem preset_snapshot_independent_witness:
  "steps (appendStep 1 (adjust Seconds 1 (mounted []))) 
     = [\<lparr>step_id = 1, step_name = ''Step 1'', duration = 1\<rparr>]
   \<and> presets (fold mutate [Append 2, Remove 1, Clear]
        (saveAsPreset 5 ''mine'' (appendStep 1 (adjust Seconds 1 (mounted [])))))
     = [\<lparr>preset_id = 5, preset_name = ''mine'',
         preset_steps = [\<lparr>step_id = 1, step_name = ''Step 1'', duration = 1\<rparr>]\<rparr>]
   \<and> steps (fold mutate [Append 2, Remove 1, Clear]
        (saveAsPreset 5 ''mine'' (appendStep 1 (adjust Seconds 1 (mounted []))))) = []"
proof -
  let ?c = "appendStep 1 (adjust Seconds 1 (mounted []))"
  have s: "steps ?c = [\<lparr>step_id = 1, step_name = ''Step 1'', duration = 1\<rparr>]"
    by (simp add: model_defs decimal.simps)
  have p: "presets ?c = []"
    by (simp add: model_defs)
  have e: "steps (fold mutate [Append 2, Remove 1, Clear] (saveAsPreset 5 ''mine'' ?c)) = []"
    by (simp add: model_defs)
  show ?thesis
    using preset_snapshot_independent[of ?c "[Append 2, Remove 1, Clear]" 5 "''mine''"] s p e
    by simp
qed

section \<open>Ticks\<close>

lemma ticks_snoc:
  "ticks (Suc k) s = (case ticks k s of None \<Rightarrow> None | Some s' \<Rightarrow> tick s')"
proof (induction k arbitrary: s)
  case 0
  show ?case by (simp split: option.splits)
next
  case (Suc k)
  show ?case
  proof (cases "tick s")
    case None
    then show ?thesis by simp
  next
    case (Some s1)
    have "ticks (Suc (Suc k)) s = ticks (Suc k) s1" using Some by simp
    also have "\<dots> = (case ticks k s1 of None \<Rightarrow> None | Some s' \<Rightarrow> tick s')" by (rule Suc.IH)
    also have "ticks k s1 = ticks (Suc k) s" using Some by simp
    finally show ?thesis .
  qed
qed

text \<open>A tick inside a step.\<close>

lemma tick_within_step:
  assumes "isMainTimerRunning s" "\<not> isPaused s" "isUsingSteps s"
    and "1 < remainingTime s" "1 < mainTimerRemainingTime s"
  shows "\<exists>s'. tick s = Some s'
    \<and> steps s' = steps s \<and> isUsingSteps s' \<and> isMainTimerRunning s' \<and> \<not> isPaused s'
    \<and> alarmAudioRef s' = alarmAudioRef s \<and> isRunning s' = isRunning s
    \<and> currentStepIndex s' = currentStepIndex s
    \<and> remainingTime s' = remainingTime s - 1
    \<and> mainTimerRemainingTime s' = mainTimerRemainingTime s - 1
    \<and> alarmPlays s' = alarmPlays s"
proof -
  define c1 where "c1 = s\<lparr>remainingTime := remainingTime s - 1,
               mainTimerRemainingTime := mainTimerRemainingTime s - 1\<rparr>"
  have cb: "intervalCallback s = Some c1"
    using assms
    by (simp add: intervalCallback_def remainingTimeUpdater_def mainTimerUpdater_def c1_def)
  have f: "steps c1 = steps s" "stepsArray c1 = stepsArray s" "isUsingSteps c1 = isUsingSteps s"
    "isMainTimerRunning c1 = isMainTimerRunning s" "isPaused c1 = isPaused s"
    "alarmAudioRef c1 = alarmAudioRef s" "isRunning c1 = isRunning s"
    "currentStepIndex c1 = currentStepIndex s" "remainingTime c1 = remainingTime s - 1"
    "mainTimerRemainingTime c1 = mainTimerRemainingTime s - 1" "alarmPlays c1 = alarmPlays s"
    "displayHours c1 = displayHours s" "displayMinutes c1 = displayMinutes s"
    "displaySeconds c1 = displaySeconds s"
    by (simp_all add: c1_def)
  have q: "\<not> countdownCompletes s c1" by (rule same_display_quiet) (simp_all add: f)
  have d: "stepsArray s = stepsArray c1 \<and> isUsingSteps s = isUsingSteps c1
      \<or> steps c1 = [] \<or> \<not> isUsingSteps c1" by (simp add: f)
  have "tick s = Some (rerender s c1)" using assms(1,2) by (simp add: tick_def cb)
  then show ?thesis
    using assms(1-3) by (simp add: rerender_frame rerender_calm_fields[OF d q] f)
qed

text \<open>The tick that ends a step which is not the last.\<close>

lemma tick_next_step:
  assumes "isMainTimerRunning s" "\<not> isPaused s" "isUsingSteps s"
    and "remainingTime s \<le> 1" "1 < mainTimerRemainingTime s"
    and "Suc (currentStepIndex s) < length (steps s)"
  shows "\<exists>s'. tick s = Some s'
    \<and> steps s' = steps s \<and> isUsingSteps s' \<and> isMainTimerRunning s' \<and> \<not> isPaused s'
    \<and> alarmAudioRef s' = alarmAudioRef s \<and> isRunning s' = isRunning s
    \<and> currentStepIndex s' = Suc (currentStepIndex s)
    \<and> remainingTime s' = duration (steps s ! Suc (currentStepIndex s))
    \<and> mainTimerRemainingTime s' = mainTimerRemainingTime s - 1
    \<and> alarmPlays s' = alarmPlays s + (if alarmAudioRef s then 1 else 0)"
proof -
  define c1 where "c1 =
    (playAlarm (s\<lparr>remainingTime := duration (steps s ! Suc (currentStepIndex s)),
               mainTimerRemainingTime := mainTimerRemainingTime s - 1\<rparr>))
      \<lparr>currentStepIndex := Suc (currentStepIndex s)\<rparr>"
  have cb: "intervalCallback s = Some c1"
    using assms
    by (simp add: intervalCallback_def remainingTimeUpdater_def mainTimerUpdater_def Let_def
        playAlarm_def c1_def)
  have f: "steps c1 = steps s" "stepsArray c1 = stepsArray s" "isUsingSteps c1 = isUsingSteps s"
    "isMainTimerRunning c1 = isMainTimerRunning s" "isPaused c1 = isPaused s"
    "alarmAudioRef c1 = alarmAudioRef s" "isRunning c1 = isRunning s"
    "currentStepIndex c1 = Suc (currentStepIndex s)"
    "remainingTime c1 = duration (steps s ! Suc (currentStepIndex s))"
    "mainTimerRemainingTime c1 = mainTimerRemainingTime s - 1"
    "alarmPlays c1 = alarmPlays s + (if alarmAudioRef s then 1 else 0)"
    "displayHours c1 = displayHours s" "displayMinutes c1 = displayMinutes s"
    "displaySeconds c1 = displaySeconds s"
    by (simp_all add: c1_def playAlarm_def)
  have q: "\<not> countdownCompletes s c1" by (rule same_display_quiet) (simp_all add: f)
  have d: "stepsArray s = stepsArray c1 \<and> isUsingSteps s = isUsingSteps c1
      \<or> steps c1 = [] \<or> \<not> isUsingSteps c1" by (simp add: f)
  have "tick s = Some (rerender s c1)" using assms(1,2) by (simp add: tick_def cb)
  then show ?thesis
    using assms(1-3) by (simp add: rerender_frame rerender_calm_fields[OF d q] f)
qed

text \<open>
  The tick that ends the last step and the whole timer: both updaters take their
  completion branch, and each of them calls \<open>playAlarm\<close>.
\<close>

lemma tick_completion:
  assumes "isMainTimerRunning s" "\<not> isPaused s" "isUsingSteps s"
    and "remainingTime s \<le> 1" "mainTimerRemainingTime s \<le> 1"
    and "steps s \<noteq> []" "\<not> Suc (currentStepIndex s) < length (steps s)"
  shows "\<exists>s'. tick s = Some s'
    \<and> steps s' = steps s \<and> isUsingSteps s' \<and> \<not> isMainTimerRunning s' \<and> \<not> isPaused s'
    \<and> alarmAudioRef s' = alarmAudioRef s \<and> \<not> isRunning s'
    \<and> currentStepIndex s' = 0
    \<and> remainingTime s' = duration (steps s ! 0)
    \<and> mainTimerRemainingTime s' = totalDuration (steps s)
    \<and> alarmPlays s' = alarmPlays s + (if alarmAudioRef s then 2 else 0)"
proof -
  obtain st sts where xs: "steps s = st # sts" using assms(6) by (cases "steps s") auto
  define a where "a = s\<lparr>remainingTime := duration st,
      mainTimerRemainingTime := totalDuration (steps s)\<rparr>"
  define b where "b = resetSteps s ((playAlarm a)\<lparr>isRunning := False, currentStepIndex := 0\<rparr>)"
  define c1 where "c1 = resetSteps s (playAlarm (b\<lparr>isMainTimerRunning := False, isRunning := False\<rparr>))"
  have cb: "intervalCallback s = Some c1"
    using assms xs
    by (simp add: intervalCallback_def remainingTimeUpdater_def mainTimerUpdater_def
        a_def b_def c1_def)
  have f: "steps c1 = steps s" "stepsArray c1 = stepsArray s" "isUsingSteps c1 = isUsingSteps s"
    "\<not> isMainTimerRunning c1" "isPaused c1 = isPaused s"
    "alarmAudioRef c1 = alarmAudioRef s" "\<not> isRunning c1"
    "currentStepIndex c1 = 0"
    "remainingTime c1 = duration (steps s ! 0)"
    "mainTimerRemainingTime c1 = totalDuration (steps s)"
    "alarmPlays c1 = alarmPlays s + (if alarmAudioRef s then 2 else 0)"
    using xs
    by (simp_all add: c1_def b_def a_def resetSteps_def Let_def setDisplayFromSeconds_def
        playAlarm_def)
  have q: "\<not> countdownCompletes s c1" using f(4) by (intro not_running_quiet) simp
  have d: "stepsArray s = stepsArray c1 \<and> isUsingSteps s = isUsingSteps c1
      \<or> steps c1 = [] \<or> \<not> isUsingSteps c1" by (simp add: f)
  have "tick s = Some (rerender s c1)" using assms(1,2) by (simp add: tick_def cb)
  then show ?thesis
    using assms(1-3) by (simp add: rerender_frame rerender_calm_fields[OF d q] f)
qed

text \<open>A tick without steps.\<close>

lemma tick_simple:
  assumes "isMainTimerRunning s" "\<not> isPaused s" "\<not> isUsingSteps s"
    and "1 < mainTimerRemainingTime s"
  shows "\<exists>s'. tick s = Some s'
    \<and> \<not> isUsingSteps s' \<and> isMainTimerRunning s' \<and> \<not> isPaused s'
    \<and> alarmAudioRef s' = alarmAudioRef s
    \<and> mainTimerRemainingTime s' = mainTimerRemainingTime s - 1
    \<and> alarmPlays s' = alarmPlays s"
proof -
  define c1 where "c1 = s\<lparr>mainTimerRemainingTime := mainTimerRemainingTime s - 1\<rparr>"
  have cb: "intervalCallback s = Some c1"
    using assms by (simp add: intervalCallback_def simpleTimerUpdater_def c1_def)
  have f: "stepsArray c1 = stepsArray s" "isUsingSteps c1 = isUsingSteps s"
    "isMainTimerRunning c1 = isMainTimerRunning s" "isPaused c1 = isPaused s"
    "alarmAudioRef c1 = alarmAudioRef s"
    "mainTimerRemainingTime c1 = mainTimerRemainingTime s - 1" "alarmPlays c1 = alarmPlays s"
    "displayHours c1 = displayHours s" "displayMinutes c1 = displayMinutes s"
    "displaySeconds c1 = displaySeconds s"
    by (simp_all add: c1_def)
  have q: "\<not> countdownCompletes s c1" by (rule same_display_quiet) (simp_all add: f)
  have d: "stepsArray s = stepsArray c1 \<and> isUsingSteps s = isUsingSteps c1
      \<or> steps c1 = [] \<or> \<not> isUsingSteps c1" by (simp add: f)
  have "tick s = Some (rerender s c1)" using assms(1,2) by (simp add: tick_def cb)
  then show ?thesis
    using assms(1-3) by (simp add: rerender_frame rerender_calm_fields[OF d q] f)
qed

lemma tick_simple_last:
  assumes "isMainTimerRunning s" "\<not> isPaused s" "\<not> isUsingSteps s"
    and "mainTimerRemainingTime s \<le> 1"
  shows "\<exists>s'. tick s = Some s'
    \<and> \<not> isUsingSteps s' \<and> \<not> isMainTimerRunning s' \<and> \<not> isPaused s'
    \<and> alarmAudioRef s' = alarmAudioRef s
    \<and> mainTimerRemainingTime s' = 0
    \<and> alarmPlays s' = alarmPlays s + (if alarmAudioRef s then 1 else 0)"
proof -
  define c1 where "c1 = playAlarm (s\<lparr>mainTimerRemainingTime := 0, isMainTimerRunning := False\<rparr>)"
  have cb: "intervalCallback s = Some c1"
    using assms by (simp add: intervalCallback_def simpleTimerUpdater_def c1_def)
  have f: "stepsArray c1 = stepsArray s" "isUsingSteps c1 = isUsingSteps s"
    "\<not> isMainTimerRunning c1" "isPaused c1 = isPaused s"
    "alarmAudioRef c1 = alarmAudioRef s"
    "mainTimerRemainingTime c1 = 0"
    "alarmPlays c1 = alarmPlays s + (if alarmAudioRef s then 1 else 0)"
    by (simp_all add: c1_def playAlarm_def)
  have q: "\<not> countdownCompletes s c1" using f(3) by (intro not_running_quiet) simp
  have d: "stepsArray s = stepsArray c1 \<and> isUsingSteps s = isUsingSteps c1
      \<or> steps c1 = [] \<or> \<not> isUsingSteps c1" by (simp add: f)
  have "tick s = Some (rerender s c1)" using assms(1,2) by (simp add: tick_def cb)
  then show ?thesis
    using assms(1-3) by (simp add: rerender_frame rerender_calm_fields[OF d q] f)
qed

lemma start_simple:
  assumes "\<not> isMainTimerRunning c" "steps c = []" "0 < inputTotal c"
  shows "isMainTimerRunning (start c) \<and> \<not> isPaused (start c) \<and> \<not> isUsingSteps (start c)
    \<and> steps (start c) = []
    \<and> mainTimerRemainingTime (start c) = inputTotal c
    \<and> alarmPlays (start c) = alarmPlays c \<and> alarmAudioRef (start c) = alarmAudioRef c"
proof -
  define c1 where "c1 = startMainTimer c"
  have f: "steps c1 = []" "isMainTimerRunning c1" "\<not> isPaused c1" "\<not> isUsingSteps c1"
    "mainTimerRemainingTime c1 = inputTotal c" "alarmPlays c1 = alarmPlays c"
    "alarmAudioRef c1 = alarmAudioRef c"
    "displayHours c1 * 3600 + displayMinutes c1 * 60 + displaySeconds c1 = inputTotal c"
    using assms by (simp_all add: c1_def startMainTimer_def stopAlarm_def Let_def inputTotal_def)
  have q: "\<not> countdownCompletes c c1" using f(8) assms(3) by (simp add: countdownCompletes_def)
  have d: "stepsArray c = stepsArray c1 \<and> isUsingSteps c = isUsingSteps c1
      \<or> steps c1 = [] \<or> \<not> isUsingSteps c1" by (simp add: f)
  have "start c = rerender c c1" by (simp add: start_def event_def c1_def)
  then show ?thesis by (simp add: rerender_frame rerender_calm_fields[OF d q] f)
qed

lemma simple_ticks:
  assumes "isMainTimerRunning s" "\<not> isPaused s" "\<not> isUsingSteps s"
    and "int k < mainTimerRemainingTime s"
  shows "\<exists>s'. ticks k s = Some s'
    \<and> \<not> isUsingSteps s' \<and> isMainTimerRunning s' \<and> \<not> isPaused s'
    \<and> alarmAudioRef s' = alarmAudioRef s
    \<and> mainTimerRemainingTime s' = mainTimerRemainingTime s - int k
    \<and> alarmPlays s' = alarmPlays s"
  using assms
proof (induction k)
  case 0
  then show ?case by simp
next
  case (Suc k)
  then obtain s1 where s1: "ticks k s = Some s1" "\<not> isUsingSteps s1" "isMainTimerRunning s1"
    "\<not> isPaused s1" "alarmAudioRef s1 = alarmAudioRef s"
    "mainTimerRemainingTime s1 = mainTimerRemainingTime s - int k" "alarmPlays s1 = alarmPlays s"
    by force
  have "1 < mainTimerRemainingTime s1" using s1(6) Suc.prems(4) by simp
  from tick_simple[OF s1(3,4,2) this] obtain s2 where s2: "tick s1 = Some s2"
    "\<not> isUsingSteps s2" "isMainTimerRunning s2" "\<not> isPaused s2"
    "alarmAudioRef s2 = alarmAudioRef s1"
    "mainTimerRemainingTime s2 = mainTimerRemainingTime s1 - 1" "alarmPlays s2 = alarmPlays s1"
    by blast
  have "ticks (Suc k) s = Some s2" by (simp only: ticks_snoc s1(1) s2(1) option.case)
  then show ?case using s1 s2 by simp
qed

text \<open>
  Claim C2. Without steps and with an entry of \<open>T > 0\<close> seconds, \<open>start\<close> followed by
  \<open>T\<close> ticks ends idle with a remaining time of 0 and exactly one alarm, sounded by the
  last tick: after every smaller number \<open>k\<close> of ticks the timer is running, \<open>T - k\<close>
  seconds remain and no alarm has sounded.
\<close>

theorem simple_countdown:
  assumes "\<not> isMainTimerRunning c" and "steps c = []" and "0 < inputTotal c"
    and "alarmAudioRef c"
  shows "(\<forall>k < nat (inputTotal c). \<exists>s. ticks k (start c) = Some s
            \<and> isMainTimerRunning s \<and> \<not> isPaused s
            \<and> mainTimerRemainingTime s = inputTotal c - int k
            \<and> alarmPlays s = alarmPlays c)
     \<and> (\<exists>s. ticks (nat (inputTotal c)) (start c) = Some s
            \<and> \<not> isMainTimerRunning s \<and> \<not> isPaused s
            \<and> mainTimerRemainingTime s = 0
            \<and> alarmPlays s = alarmPlays c + 1)"
proof -
  note st = start_simple[OF assms(1-3)]
  have before: "\<exists>s. ticks k (start c) = Some s
            \<and> \<not> isUsingSteps s \<and> isMainTimerRunning s \<and> \<not> isPaused s \<and> alarmAudioRef s
            \<and> mainTimerRemainingTime s = inputTotal c - int k
            \<and> alarmPlays s = alarmPlays c"
    if "k < nat (inputTotal c)" for k
    using simple_ticks[of "start c" k] st that assms(4) by simp
  define n where "n = nat (inputTotal c) - 1"
  have n: "nat (inputTotal c) = Suc n" "int n = inputTotal c - 1"
    using assms(3) by (simp_all add: n_def)
  from before[of n] n obtain s1 where s1: "ticks n (start c) = Some s1"
    "\<not> isUsingSteps s1" "isMainTimerRunning s1" "\<not> isPaused s1" "alarmAudioRef s1"
    "mainTimerRemainingTime s1 = 1" "alarmPlays s1 = alarmPlays c"
    by auto
  have "mainTimerRemainingTime s1 \<le> 1" using s1(6) by simp
  from tick_simple_last[OF s1(3,4,2) this] s1(5,7) obtain s2 where s2: "tick s1 = Some s2"
    "\<not> isMainTimerRunning s2" "\<not> isPaused s2" "mainTimerRemainingTime s2 = 0"
    "alarmPlays s2 = alarmPlays c + 1"
    by auto
  have "ticks (nat (inputTotal c)) (start c) = Some s2"
    by (simp only: n(1) ticks_snoc s1(1) s2(1) option.case)
  then show ?thesis using before s2 by blast
qed

theorem simple_countdown_witness:
  "ticks 1 (start (adjust Seconds 1 (adjust Seconds 1 (mounted [])))) \<noteq> None
   \<and> isMainTimerRunning (the (ticks 1 (start (adjust Seconds 1 (adjust Seconds 1 (mounted []))))))
   \<and> mainTimerRemainingTime (the (ticks 1 (start (adjust Seconds 1 (adjust Seconds 1 (mounted [])))))) = 1
   \<and> alarmPlays (the (ticks 1 (start (adjust Seconds 1 (adjust Seconds 1 (mounted [])))))) = 0
   \<and> ticks 2 (start (adjust Seconds 1 (adjust Seconds 1 (mounted [])))) \<noteq> None
   \<and> \<not> isMainTimerRunning (the (ticks 2 (start (adjust Seconds 1 (adjust Seconds 1 (mounted []))))))
   \<and> mainTimerRemainingTime (the (ticks 2 (start (adjust Seconds 1 (adjust Seconds 1 (mounted [])))))) = 0
   \<and> alarmPlays (the (ticks 2 (start (adjust Seconds 1 (adjust Seconds 1 (mounted [])))))) = 1"
proof -
  let ?c = "adjust Seconds 1 (adjust Seconds 1 (mounted []))"
  have c: "\<not> isMainTimerRunning ?c" "steps ?c = []" "inputTotal ?c = 2" "alarmAudioRef ?c"
    "alarmPlays ?c = 0"
    by (simp_all add: model_defs inputTotal_def)
  have n: "nat 2 = (2::nat)" "(1::nat) < 2" by simp_all
  from simple_countdown[OF c(1,2) _ c(4)] c(3,5) n
  have "(\<exists>s. ticks 1 (start ?c) = Some s \<and> isMainTimerRunning s \<and> \<not> isPaused s
            \<and> mainTimerRemainingTime s = 2 - int 1 \<and> alarmPlays s = 0)
     \<and> (\<exists>s. ticks 2 (start ?c) = Some s \<and> \<not> isMainTimerRunning s \<and> \<not> isPaused s
            \<and> mainTimerRemainingTime s = 0 \<and> alarmPlays s = 0 + 1)"
    by (metis zero_less_numeral)
  then show ?thesis by auto
qed

section \<open>Sequential runs: a countdown left to run\<close>

lemma total_from_first:
  "xs \<noteq> [] \<Longrightarrow> totalDuration xs = duration (xs ! 0) + totalDuration (drop (Suc 0) xs)"
  using totalDuration_drop[of 0 xs] by simp

lemma invariant_seed:
  assumes "seeded c"
  shows "sequentialInvariant (start c)"
proof -
  have m: "modeConsistent c" using assms by (simp add: seeded_def modeConsistent_def)
  have d0: "1 \<le> duration (steps c ! 0)"
    using assms by (simp add: seeded_def)
  show ?thesis
    using assms d0 total_from_first[of "steps c"]
    by (auto simp add: sequentialInvariant_def seeded_def start_counters start_main[OF m])
qed

lemma tick_running:
  assumes "sequentialInvariant s" "isMainTimerRunning s" "\<not> isPaused s"
  shows "\<exists>s'. tick s = Some s' \<and> sequentialInvariant s' \<and> steps s' = steps s
    \<and> alarmAudioRef s' = alarmAudioRef s \<and> \<not> isPaused s'
    \<and> (if 1 < mainTimerRemainingTime s
        then isMainTimerRunning s'
          \<and> mainTimerRemainingTime s' = mainTimerRemainingTime s - 1
          \<and> currentStepIndex s'
              = (if 1 < remainingTime s then currentStepIndex s else Suc (currentStepIndex s))
          \<and> alarmPlays s'
              = alarmPlays s + (if 1 < remainingTime s \<or> \<not> alarmAudioRef s then 0 else 1)
        else \<not> isMainTimerRunning s' \<and> \<not> isRunning s'
          \<and> Suc (currentStepIndex s) = length (steps s)
          \<and> currentStepIndex s' = 0
          \<and> remainingTime s' = duration (steps s ! 0)
          \<and> mainTimerRemainingTime s' = totalDuration (steps s)
          \<and> alarmPlays s' = alarmPlays s + (if alarmAudioRef s then 2 else 0))"
proof -
  note run = assms(2,3)
  let ?xs = "steps s" and ?i = "currentStepIndex s"
  from assms(1) have inv: "?xs \<noteq> []" "\<forall>st \<in> set ?xs. 1 \<le> duration st" "isUsingSteps s"
    "?i < length ?xs" "1 \<le> remainingTime s"
    "mainTimerRemainingTime s = remainingTime s + totalDuration (drop (Suc ?i) ?xs)"
    by (simp_all add: sequentialInvariant_def)
  have rest: "0 \<le> totalDuration (drop (Suc ?i) ?xs)"
    using inv(2) by (rule totalDuration_drop_nonneg)
  show ?thesis
  proof (cases "1 < remainingTime s")
    case True
    then have m: "1 < mainTimerRemainingTime s" using inv(6) rest by simp
    from tick_within_step[OF run inv(3) True m] obtain s' where s': "tick s = Some s'"
      "steps s' = steps s" "isUsingSteps s'" "isMainTimerRunning s'" "\<not> isPaused s'"
      "alarmAudioRef s' = alarmAudioRef s"
      "currentStepIndex s' = currentStepIndex s" "remainingTime s' = remainingTime s - 1"
      "mainTimerRemainingTime s' = mainTimerRemainingTime s - 1" "alarmPlays s' = alarmPlays s"
      by blast
    have "sequentialInvariant s'"
      using inv True s' by (simp add: sequentialInvariant_def)
    then show ?thesis using s' True m by auto
  next
    case False
    then have r1: "remainingTime s \<le> 1" "remainingTime s = 1" using inv(5) by simp_all
    show ?thesis
    proof (cases "Suc ?i < length ?xs")
      case True
      have split: "totalDuration (drop (Suc ?i) ?xs)
          = duration (?xs ! Suc ?i) + totalDuration (drop (Suc (Suc ?i)) ?xs)"
        using True by (rule totalDuration_drop)
      have d: "1 \<le> duration (?xs ! Suc ?i)" using inv(2) True by simp
      have rest': "0 \<le> totalDuration (drop (Suc (Suc ?i)) ?xs)"
        using inv(2) by (rule totalDuration_drop_nonneg)
      have m: "1 < mainTimerRemainingTime s" using inv(6) r1 split d rest' by simp
      from tick_next_step[OF run inv(3) r1(1) m True] obtain s' where s': "tick s = Some s'"
        "steps s' = steps s" "isUsingSteps s'" "isMainTimerRunning s'" "\<not> isPaused s'"
        "alarmAudioRef s' = alarmAudioRef s"
        "currentStepIndex s' = Suc (currentStepIndex s)"
        "remainingTime s' = duration (steps s ! Suc (currentStepIndex s))"
        "mainTimerRemainingTime s' = mainTimerRemainingTime s - 1"
        "alarmPlays s' = alarmPlays s + (if alarmAudioRef s then 1 else 0)"
        by blast
      have "sequentialInvariant s'"
        using inv True s' d split r1 by (simp add: sequentialInvariant_def)
      then show ?thesis using s' False m by auto
    next
      case False
      then have last: "Suc ?i = length ?xs" using inv(4) by simp
      have "drop (Suc ?i) ?xs = []" using False by simp
      then have m: "mainTimerRemainingTime s \<le> 1"
        using inv(6) r1 by (simp add: totalDuration_simps)
      from tick_completion[OF run inv(3) r1(1) m inv(1) False] obtain s' where s':
        "tick s = Some s'" "steps s' = steps s" "isUsingSteps s'"
        "\<not> isMainTimerRunning s'" "\<not> isPaused s'" "alarmAudioRef s' = alarmAudioRef s"
        "\<not> isRunning s'"
        "currentStepIndex s' = 0" "remainingTime s' = duration (steps s ! 0)"
        "mainTimerRemainingTime s' = totalDuration (steps s)"
        "alarmPlays s' = alarmPlays s + (if alarmAudioRef s then 2 else 0)"
        by blast
      have d0: "1 \<le> duration (?xs ! 0)" using inv(1,2) by simp
      have "sequentialInvariant s'"
        using inv s' d0 total_from_first[OF inv(1)] by (simp add: sequentialInvariant_def)
      then show ?thesis using s' m last by auto
    qed
  qed
qed

lemma run_to_completion:
  assumes "sequentialInvariant s" "isMainTimerRunning s" "\<not> isPaused s" "alarmAudioRef s"
    and "nat (mainTimerRemainingTime s) = n"
  shows "\<exists>s'. ticks n s = Some s' \<and> steps s' = steps s
    \<and> \<not> isMainTimerRunning s' \<and> \<not> isPaused s' \<and> \<not> isRunning s'
    \<and> currentStepIndex s' = 0
    \<and> remainingTime s' = duration (steps s ! 0)
    \<and> mainTimerRemainingTime s' = totalDuration (steps s)
    \<and> alarmPlays s' = alarmPlays s + (length (steps s) - currentStepIndex s) + 1"
  using assms
proof (induction n arbitrary: s)
  case 0
  have "0 \<le> totalDuration (drop (Suc (currentStepIndex s)) (steps s))"
    using "0.prems"(1) by (intro totalDuration_drop_nonneg) (simp add: sequentialInvariant_def)
  then have "1 \<le> mainTimerRemainingTime s"
    using "0.prems"(1) by (simp add: sequentialInvariant_def)
  then show ?case using "0.prems"(5) by simp
next
  case (Suc n)
  from tick_running[OF Suc.prems(1-3)] Suc.prems(4) obtain s1 where s1: "tick s = Some s1"
    "sequentialInvariant s1" "steps s1 = steps s" "alarmAudioRef s1" "\<not> isPaused s1"
    and rest: "if 1 < mainTimerRemainingTime s
        then isMainTimerRunning s1
          \<and> mainTimerRemainingTime s1 = mainTimerRemainingTime s - 1
          \<and> currentStepIndex s1
              = (if 1 < remainingTime s then currentStepIndex s else Suc (currentStepIndex s))
          \<and> alarmPlays s1 = alarmPlays s + (if 1 < remainingTime s then 0 else 1)
        else \<not> isMainTimerRunning s1 \<and> \<not> isRunning s1
          \<and> Suc (currentStepIndex s) = length (steps s)
          \<and> currentStepIndex s1 = 0
          \<and> remainingTime s1 = duration (steps s ! 0)
          \<and> mainTimerRemainingTime s1 = totalDuration (steps s)
          \<and> alarmPlays s1 = alarmPlays s + 2"
    by auto
  have step: "ticks (Suc n) s = ticks n s1" using s1(1) by simp
  show ?case
  proof (cases "1 < mainTimerRemainingTime s")
    case True
    with rest have r: "isMainTimerRunning s1"
      "mainTimerRemainingTime s1 = mainTimerRemainingTime s - 1"
      "currentStepIndex s1
         = (if 1 < remainingTime s then currentStepIndex s else Suc (currentStepIndex s))"
      "alarmPlays s1 = alarmPlays s + (if 1 < remainingTime s then 0 else 1)"
      by simp_all
    have n: "nat (mainTimerRemainingTime s1) = n" using r(2) Suc.prems(5) by simp
    from Suc.IH[OF s1(2) r(1) s1(5,4) n] obtain s' where s': "ticks n s1 = Some s'"
      "steps s' = steps s1" "\<not> isMainTimerRunning s'" "\<not> isPaused s'" "\<not> isRunning s'"
      "currentStepIndex s' = 0" "remainingTime s' = duration (steps s1 ! 0)"
      "mainTimerRemainingTime s' = totalDuration (steps s1)"
      "alarmPlays s' = alarmPlays s1 + (length (steps s1) - currentStepIndex s1) + 1"
      by blast
    have i1: "currentStepIndex s1 < length (steps s)"
      using s1(2,3) by (simp add: sequentialInvariant_def)
    have "alarmPlays s' = alarmPlays s + (length (steps s) - currentStepIndex s) + 1"
      using s'(9) r(3,4) i1 s1(3) by (auto split: if_splits)
    then show ?thesis using s' s1(3) step by simp
  next
    case False
    with rest have r: "\<not> isMainTimerRunning s1" "\<not> isRunning s1"
      "Suc (currentStepIndex s) = length (steps s)" "currentStepIndex s1 = 0"
      "remainingTime s1 = duration (steps s ! 0)"
      "mainTimerRemainingTime s1 = totalDuration (steps s)"
      "alarmPlays s1 = alarmPlays s + 2"
      by simp_all
    have "n = 0" using False Suc.prems(5) by simp
    then have "ticks (Suc n) s = Some s1" using step by simp
    moreover have "alarmPlays s1 = alarmPlays s + (length (steps s) - currentStepIndex s) + 1"
      using r(3,7) by simp
    ultimately show ?thesis using r s1 by simp
  qed
qed

lemma start_sequential_alarm:
  assumes "steps s \<noteq> []" "isUsingSteps s"
  shows "alarmPlays (start s) = alarmPlays s" "alarmAudioRef (start s) = alarmAudioRef s"
proof -
  define c1 where "c1 = startMainTimer s"
  have f: "stepsArray c1 = stepsArray s" "isUsingSteps c1 = isUsingSteps s"
    "displayHours c1 = displayHours s" "displayMinutes c1 = displayMinutes s"
    "displaySeconds c1 = displaySeconds s" "alarmPlays c1 = alarmPlays s"
    "alarmAudioRef c1 = alarmAudioRef s"
    using assms by (simp_all add: c1_def startMainTimer_def stopAlarm_def Let_def)
  have q: "\<not> countdownCompletes s c1" by (rule same_display_quiet) (simp_all add: f)
  have d: "stepsArray s = stepsArray c1 \<and> isUsingSteps s = isUsingSteps c1
      \<or> steps c1 = [] \<or> \<not> isUsingSteps c1" by (simp add: f)
  have r: "start s = rerender s c1" by (simp add: start_def event_def c1_def)
  show "alarmPlays (start s) = alarmPlays s" "alarmAudioRef (start s) = alarmAudioRef s"
    by (simp_all add: r rerender_frame rerender_calm_fields[OF d q] f)
qed

text \<open>
  A whole sequential run: from a seeded idle state, \<open>start\<close> and as many ticks as the steps
  have seconds end idle, with the counters seeded again, and with one alarm more than there
  are steps: the last tick sounds it twice.
\<close>

lemma sequential_run:
  assumes "seeded c" "alarmAudioRef c"
  shows "\<exists>s. ticks (nat (totalDuration (steps c))) (start c) = Some s
    \<and> steps s = steps c
    \<and> \<not> isMainTimerRunning s \<and> \<not> isPaused s \<and> \<not> isRunning s
    \<and> currentStepIndex s = 0
    \<and> remainingTime s = duration (steps c ! 0)
    \<and> mainTimerRemainingTime s = totalDuration (steps c)
    \<and> alarmPlays s = alarmPlays c + length (steps c) + 1"
proof -
  have m: "modeConsistent c" using assms(1) by (simp add: seeded_def modeConsistent_def)
  have c: "steps c \<noteq> []" "isUsingSteps c" "\<not> isMainTimerRunning c" "\<not> isPaused c"
    "mainTimerRemainingTime c = totalDuration (steps c)"
    using assms(1) by (simp_all add: seeded_def)
  have s: "isMainTimerRunning (start c)" "\<not> isPaused (start c)" "steps (start c) = steps c"
    "currentStepIndex (start c) = 0"
    "mainTimerRemainingTime (start c) = totalDuration (steps c)"
    using c by (simp_all add: start_counters start_main[OF m])
  have a: "alarmPlays (start c) = alarmPlays c" "alarmAudioRef (start c)"
    using start_sequential_alarm[OF c(1,2)] assms(2) by simp_all
  from run_to_completion[OF invariant_seed[OF assms(1)] s(1,2) a(2) refl]
  show ?thesis by (simp add: s a)
qed

text \<open>
  Claim C1 on the code, for the steps of 3 and 2 seconds: after \<open>start\<close> and four ticks
  the timer runs its second step with one second left and the alarm has sounded once (at
  the end of the first step). The fifth tick ends the run, idle and seeded again (step
  index 0, 3 seconds for the first step, 5 seconds in all), and takes the alarm count from
  1 to 3: both updaters of the interval callback call \<open>playAlarm\<close> (lines 470 and 479).
  Two steps give three alarms (lemma \<open>sequential_run\<close>: always one more than steps).
\<close>

theorem final_tick_rings_twice:
  "steps (appendStep 2 (adjust Seconds (-1) (appendStep 1
      (adjust Seconds 1 (adjust Seconds 1 (adjust Seconds 1 (mounted [])))))))
     = [\<lparr>step_id = 1, step_name = ''Step 1'', duration = 3\<rparr>,
        \<lparr>step_id = 2, step_name = ''Step 2'', duration = 2\<rparr>]
   \<and> map_option (\<lambda>s. (isMainTimerRunning s, currentStepIndex s, remainingTime s,
          mainTimerRemainingTime s, alarmPlays s))
        (ticks 4 (start (appendStep 2 (adjust Seconds (-1) (appendStep 1
          (adjust Seconds 1 (adjust Seconds 1 (adjust Seconds 1 (mounted [])))))))))
     = Some (True, 1, 1, 1, 1)
   \<and> map_option (\<lambda>s. (isMainTimerRunning s, currentStepIndex s, remainingTime s,
          mainTimerRemainingTime s, alarmPlays s))
        (ticks 5 (start (appendStep 2 (adjust Seconds (-1) (appendStep 1
          (adjust Seconds 1 (adjust Seconds 1 (adjust Seconds 1 (mounted [])))))))))
     = Some (False, 0, 3, 5, 3)"
  by (simp add: model_defs eval_nat_numeral decimal.simps)

section \<open>Sequential runs: every order of operations and updaters\<close>

text \<open>
  The tick that ends the last step while the whole timer has more than one second left (a
  run resumed with the first step one second short): the updater of \<open>remainingTime\<close>
  resets the steps and the timer keeps running.
\<close>

lemma tick_last_step_early:
  assumes "isMainTimerRunning s" "\<not> isPaused s" "isUsingSteps s"
    and "remainingTime s \<le> 1" "1 < mainTimerRemainingTime s"
    and "steps s \<noteq> []" "\<not> Suc (currentStepIndex s) < length (steps s)"
  shows "\<exists>s'. tick s = Some s'
    \<and> steps s' = steps s \<and> isUsingSteps s' \<and> isMainTimerRunning s' \<and> \<not> isPaused s'
    \<and> currentStepIndex s' = 0
    \<and> remainingTime s' = duration (steps s ! 0)
    \<and> mainTimerRemainingTime s' = totalDuration (steps s)"
proof -
  obtain st sts where xs: "steps s = st # sts" using assms(6) by (cases "steps s") auto
  define a where "a = s\<lparr>remainingTime := duration st,
      mainTimerRemainingTime := mainTimerRemainingTime s - 1\<rparr>"
  define c1 where "c1 = resetSteps s ((playAlarm a)\<lparr>isRunning := False, currentStepIndex := 0\<rparr>)"
  have cb: "intervalCallback s = Some c1"
    using assms xs
    by (simp add: intervalCallback_def remainingTimeUpdater_def mainTimerUpdater_def
        a_def c1_def)
  have f: "steps c1 = steps s" "stepsArray c1 = stepsArray s" "isUsingSteps c1 = isUsingSteps s"
    "isMainTimerRunning c1 = isMainTimerRunning s" "isPaused c1 = isPaused s"
    "currentStepIndex c1 = 0"
    "remainingTime c1 = duration (steps s ! 0)"
    "mainTimerRemainingTime c1 = totalDuration (steps s)"
    using xs
    by (simp_all add: c1_def a_def resetSteps_def Let_def setDisplayFromSeconds_def
        playAlarm_def)
  have d: "stepsArray s = stepsArray c1 \<and> isUsingSteps s = isUsingSteps c1
      \<or> steps c1 = [] \<or> \<not> isUsingSteps c1" by (simp add: f)
  have "tick s = Some (rerender s c1)" using assms(1,2) by (simp add: tick_def cb)
  then show ?thesis
    using assms(1-3) by (simp add: rerender_frame rerender_main[OF d] f)
qed

text \<open>
  While the whole timer has more than one second left its updater makes no call, and the
  two orders give the same tick.
\<close>

lemma tickEager_agrees:
  assumes "1 < mainTimerRemainingTime s"
  shows "tickEager s = tick s"
proof -
  have u: "mainTimerUpdater s (mainTimerRemainingTime s) = (mainTimerRemainingTime s - 1, \<lambda>s. s)"
    "simpleTimerUpdater s (mainTimerRemainingTime s) = (mainTimerRemainingTime s - 1, \<lambda>s. s)"
    using assms by (simp_all add: mainTimerUpdater_def simpleTimerUpdater_def)
  have "intervalCallbackEager s = intervalCallback s"
    by (simp add: intervalCallbackEager_def intervalCallback_def u Let_def
        split: option.splits)
  then show ?thesis by (simp add: tickEager_def tick_def)
qed

text \<open>
  The final tick when the updater of the whole timer runs at once: it resets the steps
  first, and the updater of \<open>remainingTime\<close> then runs on the duration of the first step.
  If that is more than one second it takes one second off and makes no call, so the alarm
  sounds once; if it is one second it completes again and resets the steps again.
\<close>

lemma tickEager_completion:
  assumes "isMainTimerRunning s" "\<not> isPaused s" "isUsingSteps s"
    and "mainTimerRemainingTime s \<le> 1"
    and "steps s \<noteq> []" "\<not> Suc (currentStepIndex s) < length (steps s)"
  shows "\<exists>s'. tickEager s = Some s'
    \<and> steps s' = steps s \<and> isUsingSteps s' \<and> \<not> isMainTimerRunning s' \<and> \<not> isPaused s'
    \<and> currentStepIndex s' = 0
    \<and> remainingTime s'
        = (if 1 < duration (steps s ! 0) then duration (steps s ! 0) - 1
           else duration (steps s ! 0))
    \<and> mainTimerRemainingTime s' = totalDuration (steps s)"
proof -
  obtain st sts where xs: "steps s = st # sts" using assms(5) by (cases "steps s") auto
  define a where "a = resetSteps s (playAlarm (s\<lparr>isMainTimerRunning := False, isRunning := False\<rparr>))"
  define c1 where "c1 =
    (if 1 < duration st
     then a\<lparr>remainingTime := duration st - 1, mainTimerRemainingTime := totalDuration (steps s)\<rparr>
     else resetSteps s
            ((playAlarm (a\<lparr>remainingTime := duration st,
                           mainTimerRemainingTime := totalDuration (steps s)\<rparr>))
               \<lparr>isRunning := False, currentStepIndex := 0\<rparr>))"
  have cb: "intervalCallbackEager s = Some c1"
    using assms xs
    by (simp add: intervalCallbackEager_def remainingTimeUpdater_def mainTimerUpdater_def
        a_def c1_def resetSteps_def Let_def setDisplayFromSeconds_def playAlarm_def)
  have f: "steps c1 = steps s" "stepsArray c1 = stepsArray s" "isUsingSteps c1 = isUsingSteps s"
    "\<not> isMainTimerRunning c1" "isPaused c1 = isPaused s"
    "currentStepIndex c1 = 0"
    "remainingTime c1
       = (if 1 < duration (steps s ! 0) then duration (steps s ! 0) - 1
          else duration (steps s ! 0))"
    "mainTimerRemainingTime c1 = totalDuration (steps s)"
    using xs
    by (simp_all add: c1_def a_def resetSteps_def Let_def setDisplayFromSeconds_def
        playAlarm_def)
  have d: "stepsArray s = stepsArray c1 \<and> isUsingSteps s = isUsingSteps c1
      \<or> steps c1 = [] \<or> \<not> isUsingSteps c1" by (simp add: f)
  have "tickEager s = Some (rerender s c1)" using assms(1,2) by (simp add: tickEager_def cb)
  then show ?thesis
    using assms(1-3) by (simp add: rerender_frame rerender_main[OF d] f)
qed

subsection \<open>The operations keep the step covered\<close>

lemma covered_seed:
  assumes "seeded c"
  shows "stepCovered (start c)"
proof -
  have m: "modeConsistent c" using assms by (simp add: seeded_def modeConsistent_def)
  have d0: "1 \<le> duration (steps c ! 0)"
    using assms by (simp add: seeded_def)
  show ?thesis
    using assms d0 total_from_first[of "steps c"]
    by (auto simp add: stepCovered_def seeded_def start_counters start_main[OF m])
qed

lemma covered_start:
  assumes "stepCovered s"
  shows "stepCovered (start s)"
proof -
  have m: "modeConsistent s" using assms by (simp add: stepCovered_def modeConsistent_def)
  have d0: "1 \<le> duration (steps s ! 0)"
    using assms by (simp add: stepCovered_def)
  show ?thesis
    using assms d0 total_from_first[of "steps s"]
    by (auto simp add: stepCovered_def start_counters start_main[OF m])
qed

lemma covered_pause: "stepCovered s \<Longrightarrow> stepCovered (pause s)"
  by (simp add: stepCovered_def pause_counters)

lemma covered_resume: "stepCovered s \<Longrightarrow> stepCovered (resume s)"
  by (simp add: stepCovered_def resume_counters)

lemma covered_reset:
  assumes "stepCovered s"
  shows "stepCovered (reset s)"
proof -
  have d0: "1 \<le> duration (steps s ! 0)"
    using assms by (simp add: stepCovered_def)
  show ?thesis
    using assms d0 total_from_first[of "steps s"]
    by (simp add: stepCovered_def reset_fields)
qed

lemma covered_last_step:
  assumes "stepCovered s" "mainTimerRemainingTime s \<le> 1"
  shows "remainingTime s \<le> 1" "\<not> Suc (currentStepIndex s) < length (steps s)"
proof -
  let ?xs = "steps s" and ?i = "currentStepIndex s"
  from assms(1) have inv: "\<forall>st \<in> set ?xs. 1 \<le> duration st" "1 \<le> remainingTime s"
    "remainingTime s + totalDuration (drop (Suc ?i) ?xs) \<le> mainTimerRemainingTime s"
    by (simp_all add: stepCovered_def)
  have rest: "0 \<le> totalDuration (drop (Suc ?i) ?xs)"
    using inv(1) by (rule totalDuration_drop_nonneg)
  show "remainingTime s \<le> 1" using inv(3) rest assms(2) by simp
  show "\<not> Suc ?i < length ?xs"
  proof
    assume n: "Suc ?i < length ?xs"
    have split: "totalDuration (drop (Suc ?i) ?xs)
        = duration (?xs ! Suc ?i) + totalDuration (drop (Suc (Suc ?i)) ?xs)"
      using n by (rule totalDuration_drop)
    have d: "1 \<le> duration (?xs ! Suc ?i)" using inv(1) n by simp
    have "0 \<le> totalDuration (drop (Suc (Suc ?i)) ?xs)"
      using inv(1) by (rule totalDuration_drop_nonneg)
    then show False using inv(2,3) split d assms(2) by simp
  qed
qed

lemma covered_tick:
  assumes "stepCovered s"
  shows "\<exists>s'. tick s = Some s' \<and> stepCovered s'"
proof (cases "isMainTimerRunning s \<and> \<not> isPaused s")
  case False
  then have "tick s = Some s" by (auto simp add: tick_def)
  then show ?thesis using assms by simp
next
  case True
  then have run: "isMainTimerRunning s" "\<not> isPaused s" by simp_all
  let ?xs = "steps s" and ?i = "currentStepIndex s"
  from assms have inv: "?xs \<noteq> []" "\<forall>st \<in> set ?xs. 1 \<le> duration st"
    "totalDuration ?xs < 9007199254740992" "isUsingSteps s"
    "?i < length ?xs" "1 \<le> remainingTime s"
    "remainingTime s + totalDuration (drop (Suc ?i) ?xs) \<le> mainTimerRemainingTime s"
    "mainTimerRemainingTime s \<le> totalDuration ?xs"
    by (simp_all add: stepCovered_def)
  have rest: "0 \<le> totalDuration (drop (Suc ?i) ?xs)"
    using inv(2) by (rule totalDuration_drop_nonneg)
  have d0: "1 \<le> duration (?xs ! 0)" using inv(1,2) by simp
  show ?thesis
  proof (cases "1 < remainingTime s")
    case True
    then have m: "1 < mainTimerRemainingTime s" using inv(7) rest by simp
    from tick_within_step[OF run inv(4) True m] obtain s' where s': "tick s = Some s'"
      "steps s' = steps s" "isUsingSteps s'" "isMainTimerRunning s'" "\<not> isPaused s'"
      "currentStepIndex s' = currentStepIndex s" "remainingTime s' = remainingTime s - 1"
      "mainTimerRemainingTime s' = mainTimerRemainingTime s - 1"
      by blast
    have "stepCovered s'"
      using inv True s' by (simp add: stepCovered_def)
    then show ?thesis using s'(1) by simp
  next
    case False
    then have r1: "remainingTime s \<le> 1" "remainingTime s = 1" using inv(6) by simp_all
    show ?thesis
    proof (cases "Suc ?i < length ?xs")
      case True
      have split: "totalDuration (drop (Suc ?i) ?xs)
          = duration (?xs ! Suc ?i) + totalDuration (drop (Suc (Suc ?i)) ?xs)"
        using True by (rule totalDuration_drop)
      have d: "1 \<le> duration (?xs ! Suc ?i)" using inv(2) True by simp
      have rest': "0 \<le> totalDuration (drop (Suc (Suc ?i)) ?xs)"
        using inv(2) by (rule totalDuration_drop_nonneg)
      have m: "1 < mainTimerRemainingTime s" using inv(7) r1 split d rest' by simp
      from tick_next_step[OF run inv(4) r1(1) m True] obtain s' where s': "tick s = Some s'"
        "steps s' = steps s" "isUsingSteps s'" "isMainTimerRunning s'" "\<not> isPaused s'"
        "currentStepIndex s' = Suc (currentStepIndex s)"
        "remainingTime s' = duration (steps s ! Suc (currentStepIndex s))"
        "mainTimerRemainingTime s' = mainTimerRemainingTime s - 1"
        by blast
      have "stepCovered s'"
        using inv True s' d split r1 by (simp add: stepCovered_def)
      then show ?thesis using s'(1) by simp
    next
      case last: False
      show ?thesis
      proof (cases "1 < mainTimerRemainingTime s")
        case True
        from tick_last_step_early[OF run inv(4) r1(1) True inv(1) last] obtain s' where s':
          "tick s = Some s'" "steps s' = steps s" "isUsingSteps s'"
          "isMainTimerRunning s'" "\<not> isPaused s'"
          "currentStepIndex s' = 0" "remainingTime s' = duration (steps s ! 0)"
          "mainTimerRemainingTime s' = totalDuration (steps s)"
          by blast
        have "stepCovered s'"
          using inv s' d0 total_from_first[OF inv(1)] by (simp add: stepCovered_def)
        then show ?thesis using s'(1) by simp
      next
        case False
        then have m: "mainTimerRemainingTime s \<le> 1" by simp
        from tick_completion[OF run inv(4) r1(1) m inv(1) last] obtain s' where s':
          "tick s = Some s'" "steps s' = steps s" "isUsingSteps s'"
          "\<not> isMainTimerRunning s'" "\<not> isPaused s'"
          "currentStepIndex s' = 0" "remainingTime s' = duration (steps s ! 0)"
          "mainTimerRemainingTime s' = totalDuration (steps s)"
          by blast
        have "stepCovered s'"
          using inv s' d0 total_from_first[OF inv(1)] by (simp add: stepCovered_def)
        then show ?thesis using s'(1) by simp
      qed
    qed
  qed
qed

lemma covered_tickEager:
  assumes "stepCovered s"
  shows "\<exists>s'. tickEager s = Some s' \<and> stepCovered s'"
proof (cases "isMainTimerRunning s \<and> \<not> isPaused s")
  case False
  then have "tickEager s = Some s" by (auto simp add: tickEager_def)
  then show ?thesis using assms by simp
next
  case True
  then have run: "isMainTimerRunning s" "\<not> isPaused s" by simp_all
  show ?thesis
  proof (cases "1 < mainTimerRemainingTime s")
    case True
    then show ?thesis using covered_tick[OF assms] by (simp add: tickEager_agrees)
  next
    case False
    then have m: "mainTimerRemainingTime s \<le> 1" by simp
    let ?xs = "steps s"
    from assms have inv: "?xs \<noteq> []" "\<forall>st \<in> set ?xs. 1 \<le> duration st"
      "totalDuration ?xs < 9007199254740992" "isUsingSteps s"
      by (simp_all add: stepCovered_def)
    have d0: "1 \<le> duration (?xs ! 0)" using inv(1,2) by simp
    note last = covered_last_step[OF assms m]
    from tickEager_completion[OF run inv(4) m inv(1) last(2)] obtain s' where s':
      "tickEager s = Some s'" "steps s' = steps s" "isUsingSteps s'"
      "\<not> isMainTimerRunning s'" "\<not> isPaused s'"
      "currentStepIndex s' = 0"
      "remainingTime s'
         = (if 1 < duration (steps s ! 0) then duration (steps s ! 0) - 1
            else duration (steps s ! 0))"
      "mainTimerRemainingTime s' = totalDuration (steps s)"
      by blast
    have "stepCovered s'"
      using inv s' d0 total_from_first[OF inv(1)] by (simp add: stepCovered_def)
    then show ?thesis using s'(1) by simp
  qed
qed

lemma sequentialRun_covered: "sequentialRun s \<Longrightarrow> stepCovered s"
proof (induction rule: sequentialRun.induct)
  case (ticked s s')
  then show ?case using covered_tick[of s] by auto
next
  case (ticked_at_once s s')
  then show ?case using covered_tickEager[of s] by auto
qed (simp_all add: covered_seed covered_start covered_pause covered_resume covered_reset)

text \<open>
  Claim C3. In every state of a sequential run (any sequence of \<open>start\<close>, \<open>tick\<close>,
  \<open>pause\<close>, \<open>resume\<close> and \<open>reset\<close> from a seeded start, each tick in either order of its
  updaters) the timer is in sequential mode, the next tick does not fail in either order,
  and the remaining time of the whole timer is at least the remaining time of the active
  step and at most the total of the steps. The steps of the seeded start have durations
  of at least one second and a total below \<open>2 ^ 53\<close>; so every number of the run lies in
  the range where the numbers of the code are exact.
\<close>

theorem overall_covers_step:
  assumes "sequentialRun s"
  shows "isUsingSteps s \<and> steps s \<noteq> [] \<and> tick s \<noteq> None \<and> tickEager s \<noteq> None
     \<and> 1 \<le> remainingTime s
     \<and> remainingTime s \<le> mainTimerRemainingTime s
     \<and> mainTimerRemainingTime s \<le> totalDuration (steps s)
     \<and> totalDuration (steps s) < 9007199254740992"
proof -
  have inv: "stepCovered s" using assms by (rule sequentialRun_covered)
  then have "0 \<le> totalDuration (drop (Suc (currentStepIndex s)) (steps s))"
    by (intro totalDuration_drop_nonneg) (simp add: stepCovered_def)
  then show ?thesis
    using inv covered_tick[OF inv] covered_tickEager[OF inv]
    by (auto simp add: stepCovered_def)
qed

theorem overall_covers_step_witness:
  "sequentialRun (the (tickEager (start (the (tick (start
      (appendStep 1 (adjust Seconds 1 (adjust Seconds 1 (mounted []))))))))))
   \<and> duration (steps (appendStep 1 (adjust Seconds 1 (adjust Seconds 1 (mounted [])))) ! 0) = 2
   \<and> \<not> isMainTimerRunning (the (tickEager (start (the (tick (start
      (appendStep 1 (adjust Seconds 1 (adjust Seconds 1 (mounted []))))))))))
   \<and> remainingTime (the (tickEager (start (the (tick (start
      (appendStep 1 (adjust Seconds 1 (adjust Seconds 1 (mounted [])))))))))) = 1
   \<and> mainTimerRemainingTime (the (tickEager (start (the (tick (start
      (appendStep 1 (adjust Seconds 1 (adjust Seconds 1 (mounted [])))))))))) = 2
   \<and> alarmPlays (the (tickEager (start (the (tick (start
      (appendStep 1 (adjust Seconds 1 (adjust Seconds 1 (mounted [])))))))))) = 1
   \<and> remainingTime (the (tickEager (start (the (tick (start
      (appendStep 1 (adjust Seconds 1 (adjust Seconds 1 (mounted []))))))))))
      \<le> mainTimerRemainingTime (the (tickEager (start (the (tick (start
      (appendStep 1 (adjust Seconds 1 (adjust Seconds 1 (mounted []))))))))))"
proof -
  let ?c = "appendStep 1 (adjust Seconds 1 (adjust Seconds 1 (mounted [])))"
  have "seeded ?c"
    by (intro appendStep_seeded) (simp_all add: model_defs inputTotal_def)
  then have 1: "sequentialRun (start ?c)" by (rule sequentialRun.seed)
  from overall_covers_step[OF 1] have "tick (start ?c) = Some (the (tick (start ?c)))" by simp
  with 1 have "sequentialRun (the (tick (start ?c)))" by (rule sequentialRun.ticked)
  then have 2: "sequentialRun (start (the (tick (start ?c))))" by (rule sequentialRun.started)
  from overall_covers_step[OF 2]
  have "tickEager (start (the (tick (start ?c))))
      = Some (the (tickEager (start (the (tick (start ?c))))))" by simp
  with 2 have 3: "sequentialRun (the (tickEager (start (the (tick (start ?c))))))"
    by (rule sequentialRun.ticked_at_once)
  have 4: "duration (steps ?c ! 0) = 2"
    "\<not> isMainTimerRunning (the (tickEager (start (the (tick (start ?c))))))"
    "remainingTime (the (tickEager (start (the (tick (start ?c)))))) = 1"
    "mainTimerRemainingTime (the (tickEager (start (the (tick (start ?c)))))) = 2"
    "alarmPlays (the (tickEager (start (the (tick (start ?c)))))) = 1"
    by (simp_all add: model_defs decimal.simps)
  show ?thesis using 3 4 overall_covers_step[OF 3] by simp
qed

end
